theory Spec2Isabelle
  imports Main "HOL-Library.Word" "HOL-Library.Sublist"
begin

section \<open>Request construction: \<open>pkg/shp/flags/buildrun.go\<close>\<close>

text \<open>
  The API types come from the build orchestrator's and the cluster's client libraries;
  only the fields that \<open>buildrun.go\<close> reads or writes are modelled. A Go pointer is an
  \<open>option\<close> (\<open>None\<close> is \<open>nil\<close>), a Go string is a \<open>string\<close>, a Go map is a partial
  function, \<open>time.Duration\<close> is a 64-bit integer, and a slice is an optional list
  (\<open>None\<close> is the \<open>nil\<close> slice, \<open>Some []\<close> an allocated slice of length zero).
  Fields named \<open>Name\<close> in several Go structs carry a prefix here.
\<close>

record BuildRef =
  bref_Name :: string
  APIVersion :: "string option"

record ServiceAccount =
  sa_Name :: "string option"
  Generate :: "bool option"

record LocalObjectReference =
  cred_Name :: string

record Image =
  Image :: string
  Credentials :: "LocalObjectReference option"
  Labels :: "string \<rightharpoonup> string"
  Annotations :: "string \<rightharpoonup> string"

record Duration =
  Duration :: "64 word"

record EnvVar =
  env_Name :: string
  env_Value :: string

record BuildRunSpec =
  BuildRef :: "BuildRef option"
  ServiceAccount :: "ServiceAccount option"
  Timeout :: "Duration option"
  Output :: "Image option"
  Env :: "EnvVar list option"

text \<open>\<open>len\<close> of a slice: the \<open>nil\<close> slice has length zero.\<close>

definition len :: "'a list option \<Rightarrow> nat" where
  "len s = (case s of None \<Rightarrow> 0 | Some xs \<Rightarrow> length xs)"

text \<open>
  The five stages of \<open>SanitizeBuildRunSpec\<close>, one per \<open>if\<close> statement of the source, in
  the source's order. Each takes the spec as the previous statement left it.
\<close>

definition sanitize_BuildRef :: "BuildRunSpec \<Rightarrow> BuildRunSpec" where
  "sanitize_BuildRef br =
     (case BuildRef br of
        None \<Rightarrow> br
      | Some b \<Rightarrow>
          if bref_Name b = [] \<and> (case APIVersion b of None \<Rightarrow> False | Some v \<Rightarrow> v = [])
          then br\<lparr>BuildRef := None\<rparr>
          else br)"

definition sanitize_ServiceAccount :: "BuildRunSpec \<Rightarrow> BuildRunSpec" where
  "sanitize_ServiceAccount br =
     (case ServiceAccount br of
        None \<Rightarrow> br
      | Some sa \<Rightarrow>
          if (case sa_Name sa of None \<Rightarrow> True | Some n \<Rightarrow> n = []) \<and>
             (case Generate sa of None \<Rightarrow> True | Some g \<Rightarrow> \<not> g)
          then br\<lparr>ServiceAccount := None\<rparr>
          else br)"

definition sanitize_Credentials :: "Image \<Rightarrow> Image" where
  "sanitize_Credentials out =
     (case Credentials out of
        None \<Rightarrow> out
      | Some c \<Rightarrow> if cred_Name c = [] then out\<lparr>Credentials := None\<rparr> else out)"

definition sanitize_Output :: "BuildRunSpec \<Rightarrow> BuildRunSpec" where
  "sanitize_Output br =
     (case Output br of
        None \<Rightarrow> br
      | Some out \<Rightarrow>
          (let out' = sanitize_Credentials out
           in if Image out' = [] \<and> Credentials out' = None
              then br\<lparr>Output := None\<rparr>
              else br\<lparr>Output := Some out'\<rparr>))"

definition sanitize_Timeout :: "BuildRunSpec \<Rightarrow> BuildRunSpec" where
  "sanitize_Timeout br =
     (case Timeout br of
        None \<Rightarrow> br
      | Some d \<Rightarrow> if Duration d = 0 then br\<lparr>Timeout := None\<rparr> else br)"

definition sanitize_Env :: "BuildRunSpec \<Rightarrow> BuildRunSpec" where
  "sanitize_Env br = (if len (Env br) = 0 then br\<lparr>Env := None\<rparr> else br)"

text \<open>
  \<open>SanitizeBuildRunSpec\<close> receives a pointer and mutates the spec behind it. The model
  takes the pointer (\<open>None\<close> for \<open>nil\<close>) and returns the spec behind it after the call.
\<close>

definition SanitizeBuildRunSpec :: "BuildRunSpec option \<Rightarrow> BuildRunSpec option" where
  "SanitizeBuildRunSpec brp =
     (case brp of
        None \<Rightarrow> None
      | Some br \<Rightarrow>
          Some (sanitize_Env (sanitize_Timeout (sanitize_Output
                  (sanitize_ServiceAccount (sanitize_BuildRef br))))))"

text \<open>Concrete specs used to exercise the stages.\<close>

definition spec_all_zero :: BuildRunSpec where
  "spec_all_zero =
     \<lparr>BuildRef = Some \<lparr>bref_Name = [], APIVersion = Some []\<rparr>,
      ServiceAccount = Some \<lparr>sa_Name = Some [], Generate = Some False\<rparr>,
      Timeout = Some \<lparr>Duration = 0\<rparr>,
      Output = Some \<lparr>Image = [], Credentials = Some \<lparr>cred_Name = []\<rparr>,
                     Labels = Map.empty, Annotations = Map.empty\<rparr>,
      Env = Some []\<rparr>"

definition spec_all_set :: BuildRunSpec where
  "spec_all_set =
     \<lparr>BuildRef = Some \<lparr>bref_Name = ''b'', APIVersion = Some []\<rparr>,
      ServiceAccount = Some \<lparr>sa_Name = Some [], Generate = Some True\<rparr>,
      Timeout = Some \<lparr>Duration = 5\<rparr>,
      Output = Some \<lparr>Image = ''img'', Credentials = Some \<lparr>cred_Name = []\<rparr>,
                     Labels = Map.empty, Annotations = Map.empty\<rparr>,
      Env = Some [\<lparr>env_Name = ''k'', env_Value = ''v''\<rparr>]\<rparr>"

definition spec_labels_only :: BuildRunSpec where
  "spec_labels_only =
     \<lparr>BuildRef = None, ServiceAccount = None, Timeout = None,
      Output = Some \<lparr>Image = [], Credentials = None,
                     Labels = [''team'' \<mapsto> ''a''], Annotations = Map.empty\<rparr>,
      Env = None\<rparr>"

definition spec_annotated :: BuildRunSpec where
  "spec_annotated =
     \<lparr>BuildRef = None, ServiceAccount = None, Timeout = None,
      Output = Some \<lparr>Image = [], Credentials = Some \<lparr>cred_Name = []\<rparr>,
                     Labels = [''team'' \<mapsto> ''a''], Annotations = [''note'' \<mapsto> ''x'']\<rparr>,
      Env = None\<rparr>"

definition spec_kept_output :: BuildRunSpec where
  "spec_kept_output =
     \<lparr>BuildRef = Some \<lparr>bref_Name = [], APIVersion = Some ''v1''\<rparr>,
      ServiceAccount = Some \<lparr>sa_Name = Some ''builder'', Generate = None\<rparr>,
      Timeout = None,
      Output = Some \<lparr>Image = [], Credentials = Some \<lparr>cred_Name = ''secret''\<rparr>,
                     Labels = Map.empty, Annotations = Map.empty\<rparr>,
      Env = None\<rparr>"

definition spec_image_only :: BuildRunSpec where
  "spec_image_only =
     \<lparr>BuildRef = None, ServiceAccount = None, Timeout = None,
      Output = Some \<lparr>Image = ''img'', Credentials = None,
                     Labels = Map.empty, Annotations = Map.empty\<rparr>,
      Env = None\<rparr>"

section \<open>The reactive dispatcher: \<open>PodWatcher\<close>\<close>

subsection \<open>Go channels that are only ever closed\<close>

text \<open>
  Nothing is ever sent on a stop channel; it is created open and closed at most once
  without fault. The built-in \<open>close\<close> panics on a \<open>nil\<close> channel and on a channel that
  is already closed, and a panic that no one recovers ends the program.
\<close>

datatype chan = ChanNil | ChanOpen | ChanClosed

datatype panic = CloseOfNilChannel | CloseOfClosedChannel

definition close_chan :: "chan \<Rightarrow> panic + chan" where
  "close_chan c =
     (case c of
        ChanNil \<Rightarrow> Inl CloseOfNilChannel
      | ChanClosed \<Rightarrow> Inl CloseOfClosedChannel
      | ChanOpen \<Rightarrow> Inr ChanClosed)"

subsection \<open>Notifications and hooks\<close>

text \<open>
  \<open>watch.EventType\<close> is a string type; the three tags the loop switches on are its
  constants. \<open>event.Object\<close> is an interface value: \<open>nil\<close>, a \<open>*corev1.Pod\<close> (a pointer,
  possibly a \<open>nil\<close> one) or a value of some other type. The pod type is a parameter.
\<close>

type_synonym EventType = string

definition Added :: EventType where "Added = ''ADDED''"
definition Modified :: EventType where "Modified = ''MODIFIED''"
definition Deleted :: EventType where "Deleted = ''DELETED''"

datatype 'pod runtime_Object = PodObject "'pod option" | OtherObject

record 'pod Event =
  Type :: EventType
  Object :: "'pod runtime_Object option"

text \<open>
  A hook is a Go closure: it may read and change whatever it captured. That captured
  state is the parameter \<open>'w\<close>, threaded through every call. An \<open>error\<close> is \<open>None\<close> for
  \<open>nil\<close>.
\<close>

type_synonym ('pod, 'w) SkipPodFn = "'pod option \<Rightarrow> 'w \<Rightarrow> bool \<times> 'w"

type_synonym ('pod, 'w, 'e) OnPodEventFn = "'pod option \<Rightarrow> 'w \<Rightarrow> 'e option \<times> 'w"

record ('pod, 'w, 'e) PodWatcher =
  stopCh :: chan
  skipPodFn :: "('pod, 'w) SkipPodFn option"
  onPodAddedFn :: "('pod, 'w, 'e) OnPodEventFn option"
  onPodModifiedFn :: "('pod, 'w, 'e) OnPodEventFn option"
  onPodDeletedFn :: "('pod, 'w, 'e) OnPodEventFn option"

text \<open>
  \<open>NewPodWatcher\<close>: the argument is the error of the client's \<open>Watch\<close> call, if any.
\<close>

definition NewPodWatcher :: "'e option \<Rightarrow> 'e + ('pod, 'w, 'e) PodWatcher" where
  "NewPodWatcher watch_err =
     (case watch_err of
        Some err \<Rightarrow> Inl err
      | None \<Rightarrow>
          Inr \<lparr>stopCh = ChanOpen, skipPodFn = None, onPodAddedFn = None,
               onPodModifiedFn = None, onPodDeletedFn = None\<rparr>)"

definition WithSkipPodFn ::
  "('pod, 'w) SkipPodFn \<Rightarrow> ('pod, 'w, 'e) PodWatcher \<Rightarrow> ('pod, 'w, 'e) PodWatcher" where
  "WithSkipPodFn fn p = p\<lparr>skipPodFn := Some fn\<rparr>"

definition WithOnPodAddedFn ::
  "('pod, 'w, 'e) OnPodEventFn \<Rightarrow> ('pod, 'w, 'e) PodWatcher \<Rightarrow> ('pod, 'w, 'e) PodWatcher" where
  "WithOnPodAddedFn fn p = p\<lparr>onPodAddedFn := Some fn\<rparr>"

definition WithOnPodModifiedFn ::
  "('pod, 'w, 'e) OnPodEventFn \<Rightarrow> ('pod, 'w, 'e) PodWatcher \<Rightarrow> ('pod, 'w, 'e) PodWatcher" where
  "WithOnPodModifiedFn fn p = p\<lparr>onPodModifiedFn := Some fn\<rparr>"

definition WithOnPodDeletedFn ::
  "('pod, 'w, 'e) OnPodEventFn \<Rightarrow> ('pod, 'w, 'e) PodWatcher \<Rightarrow> ('pod, 'w, 'e) PodWatcher" where
  "WithOnPodDeletedFn fn p = p\<lparr>onPodDeletedFn := Some fn\<rparr>"

subsection \<open>The event loop\<close>

text \<open>
  What a run of \<open>Start\<close> changes outside the watcher: the state the closures captured,
  the record of hook invocations (which hook, on which pod, in the order of the calls)
  and the number of \<open>Stop\<close> calls made on the watch subscription.
\<close>

record ('pod, 'w) loop_state =
  world :: 'w
  calls :: "(EventType \<times> 'pod option) list"
  watcher_stops :: nat

text \<open>
  One guarded hook call of the \<open>switch\<close>: nothing when the hook is \<open>nil\<close>; otherwise the
  hook runs, and a non-\<open>nil\<close> error makes \<open>Start\<close> return the pod and the error
  (\<open>Some\<close>), while \<open>None\<close> lets the loop go on.
\<close>

definition call_hook ::
  "EventType \<Rightarrow> ('pod, 'w, 'e) OnPodEventFn option \<Rightarrow> 'pod option \<Rightarrow> ('pod, 'w) loop_state \<Rightarrow>
     ('pod option \<times> 'e) option \<times> ('pod, 'w) loop_state" where
  "call_hook tag fn pod st =
     (case fn of
        None \<Rightarrow> (None, st)
      | Some h \<Rightarrow>
          (let r = h pod (world st);
               st' = st\<lparr>world := snd r, calls := calls st @ [(tag, pod)]\<rparr>
           in case fst r of
                None \<Rightarrow> (None, st')
              | Some err \<Rightarrow> (Some (pod, err), st')))"

text \<open>The body of the first \<open>select\<close> case, for one received event.\<close>

definition on_event ::
  "('pod, 'w, 'e) PodWatcher \<Rightarrow> 'pod Event \<Rightarrow> ('pod, 'w) loop_state \<Rightarrow>
     ('pod option \<times> 'e) option \<times> ('pod, 'w) loop_state" where
  "on_event p event st =
     (case Object event of
        None \<Rightarrow> (None, st)
      | Some OtherObject \<Rightarrow> (None, st)
      | Some (PodObject pod) \<Rightarrow>
          (let sk = (case skipPodFn p of
                       None \<Rightarrow> (False, world st)
                     | Some f \<Rightarrow> f pod (world st));
               st1 = st\<lparr>world := snd sk\<rparr>
           in if fst sk then (None, st1)
              else if Type event = Added then call_hook Added (onPodAddedFn p) pod st1
              else if Type event = Modified then call_hook Modified (onPodModifiedFn p) pod st1
              else if Type event = Deleted then call_hook Deleted (onPodDeletedFn p) pod st1
              else (None, st1)))"

text \<open>
  \<open>select\<close> takes one ready case at each iteration. A run is driven by the sequence of
  cases taken: an event received from the subscription's channel (a closed channel
  delivers the zero event, whose \<open>Object\<close> is \<open>nil\<close>), the context's \<open>Done\<close> channel, or
  the stop channel. \<open>Start\<close> returns the outcome, the final state and the part of the
  sequence it never looked at. When the sequence is used up the loop is blocked in
  \<open>select\<close> and has not returned: \<open>Waiting\<close>.
\<close>

datatype 'pod select_case = RecvEvent "'pod Event" | RecvCtxDone | RecvStopCh

datatype ('pod, 'e) outcome = Returned "'pod option" "'e option" | Waiting

fun PodWatcher_Start ::
  "('pod, 'w, 'e) PodWatcher \<Rightarrow> 'pod select_case list \<Rightarrow> ('pod, 'w) loop_state \<Rightarrow>
     ('pod, 'e) outcome \<times> ('pod, 'w) loop_state \<times> 'pod select_case list" where
  "PodWatcher_Start p [] st = (Waiting, st, [])"
| "PodWatcher_Start p (RecvEvent event # cs) st =
     (case on_event p event st of
        (Some (pod, err), st') \<Rightarrow> (Returned pod (Some err), st', cs)
      | (None, st') \<Rightarrow> PodWatcher_Start p cs st')"
| "PodWatcher_Start p (RecvCtxDone # cs) st =
     (Returned None None, st\<lparr>watcher_stops := Suc (watcher_stops st)\<rparr>, cs)"
| "PodWatcher_Start p (RecvStopCh # cs) st =
     (Returned None None, st\<lparr>watcher_stops := Suc (watcher_stops st)\<rparr>, cs)"

definition PodWatcher_Stop :: "('pod, 'w, 'e) PodWatcher \<Rightarrow> panic + ('pod, 'w, 'e) PodWatcher" where
  "PodWatcher_Stop p =
     (case close_chan (stopCh p) of
        Inl pn \<Rightarrow> Inl pn
      | Inr c \<Rightarrow> Inr (p\<lparr>stopCh := c\<rparr>))"

subsection \<open>Vocabulary for stating the dispatcher's properties\<close>

text \<open>The hook registered for a tag, and the pod notifications of a run in delivery order.\<close>

definition hook_for :: "('pod, 'w, 'e) PodWatcher \<Rightarrow> EventType \<Rightarrow> ('pod, 'w, 'e) OnPodEventFn option" where
  "hook_for p ty =
     (if ty = Added then onPodAddedFn p
      else if ty = Modified then onPodModifiedFn p
      else if ty = Deleted then onPodDeletedFn p
      else None)"

fun deliveries :: "'pod select_case list \<Rightarrow> (EventType \<times> 'pod option) list" where
  "deliveries [] = []"
| "deliveries (RecvEvent event # cs) =
     (case Object event of
        Some (PodObject pod) \<Rightarrow> (Type event, pod) # deliveries cs
      | _ \<Rightarrow> deliveries cs)"
| "deliveries (RecvCtxDone # cs) = deliveries cs"
| "deliveries (RecvStopCh # cs) = deliveries cs"

text \<open>A watcher and notifications on which the properties are exercised.\<close>

definition demo_watcher :: "(string, nat, string) PodWatcher" where
  "demo_watcher =
     \<lparr>stopCh = ChanOpen,
      skipPodFn = Some (\<lambda>pod w. (pod = Some ''other-pod'', w)),
      onPodAddedFn = Some (\<lambda>pod w. (None, Suc w)),
      onPodModifiedFn = Some (\<lambda>pod w. (if pod = Some ''failed-pod'' then Some ''build failed'' else None, Suc w)),
      onPodDeletedFn = None\<rparr>"

text \<open>
  A watcher whose closures leave distinguishable marks on the captured counter: the
  skip predicate adds 1000, the add hook 1 and the modify hook 10; there is no delete
  hook.
\<close>

definition tally_watcher :: "(string, nat, string) PodWatcher" where
  "tally_watcher =
     \<lparr>stopCh = ChanOpen,
      skipPodFn = Some (\<lambda>pod w. (pod = Some ''other-pod'', w + 1000)),
      onPodAddedFn = Some (\<lambda>pod w. (None, w + 1)),
      onPodModifiedFn = Some (\<lambda>pod w. (if pod = Some ''failed-pod'' then Some ''build failed'' else None, w + 10)),
      onPodDeletedFn = None\<rparr>"

definition new_watcher :: "(string, nat, string) PodWatcher" where
  "new_watcher =
     \<lparr>stopCh = ChanOpen, skipPodFn = None, onPodAddedFn = None,
      onPodModifiedFn = None, onPodDeletedFn = None\<rparr>"

definition demo_state :: "(string, nat) loop_state" where
  "demo_state = \<lparr>world = 0, calls = [], watcher_stops = 0\<rparr>"

definition ev :: "EventType \<Rightarrow> string \<Rightarrow> string select_case" where
  "ev ty name = RecvEvent \<lparr>Type = ty, Object = Some (PodObject (Some name))\<rparr>"

section \<open>The tail coordinator: \<open>pkg/shp/tail/tail.go\<close>\<close>

subsection \<open>Strings\<close>

text \<open>\<open>strings.HasPrefix\<close> and \<open>strings.TrimPrefix\<close> of the Go library.\<close>

definition HasPrefix :: "string \<Rightarrow> string \<Rightarrow> bool" where
  "HasPrefix s pre = (length s \<ge> length pre \<and> take (length pre) s = pre)"

definition TrimPrefix :: "string \<Rightarrow> string \<Rightarrow> string" where
  "TrimPrefix s pre = (if HasPrefix s pre then drop (length pre) s else s)"

definition newline :: string where
  "newline = [CHR 0x0A]"

text \<open>The text one \<open>Fprintf\<close> with the format \<open>[%s] %s\<close> and a newline hands to the writer.\<close>

definition format_line :: "string \<Rightarrow> string \<Rightarrow> string" where
  "format_line containerName text = ''['' @ containerName @ ''] '' @ text @ newline"

subsection \<open>The coordinator and its tasks\<close>

text \<open>
  The client is a function from namespace, pod name and container to what opening the
  log stream gives: an error, or a stream. A stream is the list of lines its scanner
  yields before \<open>Scan\<close> returns false (the remote end closed it, a read failed, or the
  stream was closed from the stop task). A writer is the list of the writes made to it,
  one per \<open>Fprintf\<close> or \<open>Fprintln\<close> call.
\<close>

datatype open_result = OpenError string | OpenStream "string list"

record Tail =
  clientset :: "string \<Rightarrow> string \<Rightarrow> string \<Rightarrow> open_result"
  tail_stopCh :: chan
  stdout :: "string list"
  stderr :: "string list"

definition NewTail :: "(string \<Rightarrow> string \<Rightarrow> string \<Rightarrow> open_result) \<Rightarrow> Tail" where
  "NewTail cs = \<lparr>clientset = cs, tail_stopCh = ChanOpen, stdout = [], stderr = []\<rparr>"

text \<open>
  \<open>Start\<close> spawns two tasks. The reader opens the stream (\<open>ReaderOpen\<close>), then scans
  it line by line under the container's display name (\<open>ReaderScan\<close>). The bridge
  (\<open>CancelBridge\<close>) waits for the context to be done and then closes the stop channel.
  \<open>task_step\<close> runs one task up to its next write or its end; its first argument tells
  whether the context is done. A panic in any task ends the program.
\<close>

datatype task =
    ReaderOpen string string string
  | ReaderScan string "string list"
  | CancelBridge
  | Finished

fun task_step :: "bool \<Rightarrow> Tail \<Rightarrow> task \<Rightarrow> panic + (Tail \<times> task)" where
  "task_step done t (ReaderOpen ns podName container) =
     (case clientset t ns podName container of
        OpenError err \<Rightarrow> Inr (t\<lparr>stderr := stderr t @ [err @ newline]\<rparr>, Finished)
      | OpenStream ls \<Rightarrow> Inr (t, ReaderScan (TrimPrefix container ''step-'') ls))"
| "task_step done t (ReaderScan containerName []) = Inr (t, Finished)"
| "task_step done t (ReaderScan containerName (l # ls)) =
     Inr (t\<lparr>stdout := stdout t @ [format_line containerName l]\<rparr>, ReaderScan containerName ls)"
| "task_step done t CancelBridge =
     (if done
      then (case close_chan (tail_stopCh t) of
              Inl pn \<Rightarrow> Inl pn
            | Inr c \<Rightarrow> Inr (t\<lparr>tail_stopCh := c\<rparr>, Finished))
      else Inr (t, CancelBridge))"
| "task_step done t Finished = Inr (t, Finished)"

definition Tail_Stop :: "Tail \<Rightarrow> panic + Tail" where
  "Tail_Stop t =
     (case close_chan (tail_stopCh t) of
        Inl pn \<Rightarrow> Inl pn
      | Inr c \<Rightarrow> Inr (t\<lparr>tail_stopCh := c\<rparr>))"

text \<open>
  The coordinator with its running tasks and the state of the upstream context. The
  tasks run concurrently: a run is a sequence of actions, each a call by the owner
  (\<open>Start\<close>, \<open>Stop\<close>), the cancellation of the context, or one step of one task.
\<close>

record tail_sys =
  tail :: Tail
  tasks :: "task list"
  ctx_done :: bool

definition Tail_Start :: "string \<Rightarrow> string \<Rightarrow> string \<Rightarrow> tail_sys \<Rightarrow> tail_sys" where
  "Tail_Start ns podName container s =
     s\<lparr>tasks := tasks s @ [ReaderOpen ns podName container, CancelBridge]\<rparr>"

datatype action = CallStart string string string | CallStop | CtxCancel | RunTask nat

fun exec :: "action \<Rightarrow> tail_sys \<Rightarrow> panic + tail_sys" where
  "exec (CallStart ns podName container) s = Inr (Tail_Start ns podName container s)"
| "exec CallStop s =
     (case Tail_Stop (tail s) of
        Inl pn \<Rightarrow> Inl pn
      | Inr t \<Rightarrow> Inr (s\<lparr>tail := t\<rparr>))"
| "exec CtxCancel s = Inr (s\<lparr>ctx_done := True\<rparr>)"
| "exec (RunTask i) s =
     (if i < length (tasks s)
      then (case task_step (ctx_done s) (tail s) (tasks s ! i) of
              Inl pn \<Rightarrow> Inl pn
            | Inr (t, tk) \<Rightarrow> Inr (s\<lparr>tail := t, tasks := (tasks s)[i := tk]\<rparr>))
      else Inr s)"

fun run :: "action list \<Rightarrow> tail_sys \<Rightarrow> panic + tail_sys" where
  "run [] s = Inr s"
| "run (a # acts) s =
     (case exec a s of
        Inl pn \<Rightarrow> Inl pn
      | Inr s' \<Rightarrow> run acts s')"

definition new_sys :: "(string \<Rightarrow> string \<Rightarrow> string \<Rightarrow> open_result) \<Rightarrow> tail_sys" where
  "new_sys cs = \<lparr>tail = NewTail cs, tasks = [], ctx_done = False\<rparr>"

text \<open>
  Two systems that differ at most in what was written to the error sink and in the
  state of task \<open>i\<close>.
\<close>

definition same_but_stderr :: "Tail \<Rightarrow> Tail \<Rightarrow> bool" where
  "same_but_stderr t t' = (t\<lparr>stderr := []\<rparr> = t'\<lparr>stderr := []\<rparr>)"

definition agree_except :: "nat \<Rightarrow> tail_sys \<Rightarrow> tail_sys \<Rightarrow> bool" where
  "agree_except i s s' =
     (same_but_stderr (tail s) (tail s') \<and> ctx_done s = ctx_done s' \<and>
      (tasks s)[i := Finished] = (tasks s')[i := Finished])"

text \<open>
  The invariant relating a run in which task \<open>i\<close> is a reader whose stream fails to
  open to the run in which that task has already finished.
\<close>

definition sim :: "nat \<Rightarrow> tail_sys \<Rightarrow> tail_sys \<Rightarrow> bool" where
  "sim i s s' =
     (agree_except i s s' \<and> i < length (tasks s') \<and> tasks s' ! i = Finished \<and>
      (tasks s ! i = Finished \<or>
       (\<exists>ns podName container err.
          tasks s ! i = ReaderOpen ns podName container \<and>
          clientset (tail s) ns podName container = OpenError err)))"

text \<open>A client whose \<open>step-build\<close> stream has two lines and whose other streams fail to open.\<close>

definition demo_client :: "string \<Rightarrow> string \<Rightarrow> string \<Rightarrow> open_result" where
  "demo_client ns podName container =
     (if container = ''step-build'' then OpenStream [''a'', ''b'']
      else OpenError ''container not found'')"

text \<open>
  The coordinator after two attachments: \<open>step-missing\<close>, whose stream fails to open,
  and \<open>step-build\<close>. Tasks 0 and 2 are the readers, tasks 1 and 3 the bridges.
\<close>

definition demo_sys :: tail_sys where
  "demo_sys =
     Tail_Start ''ns'' ''pod'' ''step-build''
       (Tail_Start ''ns'' ''pod'' ''step-missing'' (new_sys demo_client))"

section \<open>Properties of the request sanitizer\<close>

subsection \<open>Stage lemmas\<close>

lemma sanitize_BuildRef_frame:
  "ServiceAccount (sanitize_BuildRef br) = ServiceAccount br"
  "Timeout (sanitize_BuildRef br) = Timeout br"
  "Output (sanitize_BuildRef br) = Output br"
  "Env (sanitize_BuildRef br) = Env br"
  by (simp_all add: sanitize_BuildRef_def split: option.splits)

lemma sanitize_ServiceAccount_frame:
  "BuildRef (sanitize_ServiceAccount br) = BuildRef br"
  "Timeout (sanitize_ServiceAccount br) = Timeout br"
  "Output (sanitize_ServiceAccount br) = Output br"
  "Env (sanitize_ServiceAccount br) = Env br"
  by (simp_all add: sanitize_ServiceAccount_def split: option.splits)

lemma sanitize_Output_frame:
  "BuildRef (sanitize_Output br) = BuildRef br"
  "ServiceAccount (sanitize_Output br) = ServiceAccount br"
  "Timeout (sanitize_Output br) = Timeout br"
  "Env (sanitize_Output br) = Env br"
  by (simp_all add: sanitize_Output_def Let_def split: option.splits)

lemma sanitize_Timeout_frame:
  "BuildRef (sanitize_Timeout br) = BuildRef br"
  "ServiceAccount (sanitize_Timeout br) = ServiceAccount br"
  "Output (sanitize_Timeout br) = Output br"
  "Env (sanitize_Timeout br) = Env br"
  by (simp_all add: sanitize_Timeout_def split: option.splits)

lemma sanitize_Env_frame:
  "BuildRef (sanitize_Env br) = BuildRef br"
  "ServiceAccount (sanitize_Env br) = ServiceAccount br"
  "Output (sanitize_Env br) = Output br"
  "Timeout (sanitize_Env br) = Timeout br"
  by (simp_all add: sanitize_Env_def)

lemmas sanitize_frames =
  sanitize_BuildRef_frame sanitize_ServiceAccount_frame sanitize_Output_frame
  sanitize_Timeout_frame sanitize_Env_frame

lemma Sanitize_Some:
  "\<exists>br'. SanitizeBuildRunSpec (Some br) = Some br' \<and>
     BuildRef br' = BuildRef (sanitize_BuildRef br) \<and>
     ServiceAccount br' = ServiceAccount (sanitize_ServiceAccount br) \<and>
     Output br' = Output (sanitize_Output br) \<and>
     Timeout br' = Timeout (sanitize_Timeout br) \<and>
     Env br' = Env (sanitize_Env br)"
proof -
  let ?a = "sanitize_BuildRef br"
  let ?b = "sanitize_ServiceAccount ?a"
  let ?c = "sanitize_Output ?b"
  let ?d = "sanitize_Timeout ?c"
  have sa: "ServiceAccount (sanitize_ServiceAccount ?a) = ServiceAccount (sanitize_ServiceAccount br)"
    by (simp add: sanitize_ServiceAccount_def sanitize_frames split: option.splits)
  have out: "Output (sanitize_Output ?b) = Output (sanitize_Output br)"
    by (simp add: sanitize_Output_def Let_def sanitize_frames split: option.splits)
  have tm: "Timeout (sanitize_Timeout ?c) = Timeout (sanitize_Timeout br)"
    by (simp add: sanitize_Timeout_def sanitize_frames split: option.splits)
  have env: "Env (sanitize_Env ?d) = Env (sanitize_Env br)"
    by (simp add: sanitize_Env_def sanitize_frames)
  show ?thesis
    unfolding SanitizeBuildRunSpec_def
    by (simp add: sanitize_frames sa out tm env)
qed

lemma sanitize_BuildRef_spec:
  "BuildRef (sanitize_BuildRef br) =
     (case BuildRef br of
        None \<Rightarrow> None
      | Some b \<Rightarrow> if bref_Name b = [] \<and> APIVersion b = Some [] then None else Some b)"
  by (auto simp: sanitize_BuildRef_def split: option.splits)

lemma sanitize_ServiceAccount_spec:
  "ServiceAccount (sanitize_ServiceAccount br) =
     (case ServiceAccount br of
        None \<Rightarrow> None
      | Some sa \<Rightarrow>
          if (sa_Name sa = None \<or> sa_Name sa = Some []) \<and>
             (Generate sa = None \<or> Generate sa = Some False)
          then None else Some sa)"
  by (auto simp: sanitize_ServiceAccount_def split: option.splits)

lemma sanitize_Output_spec:
  "Output (sanitize_Output br) =
     (case Output br of
        None \<Rightarrow> None
      | Some out \<Rightarrow>
          (case Credentials out of
             None \<Rightarrow> if Image out = [] then None else Some out
           | Some c \<Rightarrow>
               if cred_Name c = []
               then (if Image out = [] then None else Some (out\<lparr>Credentials := None\<rparr>))
               else Some out))"
  by (auto simp: sanitize_Output_def sanitize_Credentials_def Let_def split: option.splits)

lemma sanitize_Timeout_spec:
  "Timeout (sanitize_Timeout br) =
     (case Timeout br of
        None \<Rightarrow> None
      | Some d \<Rightarrow> if Duration d = 0 then None else Some d)"
  by (auto simp: sanitize_Timeout_def split: option.splits)

lemma sanitize_Env_spec:
  "Env (sanitize_Env br) =
     (case Env br of
        None \<Rightarrow> None
      | Some xs \<Rightarrow> if xs = [] then None else Some xs)"
  by (auto simp: sanitize_Env_def len_def split: option.splits)

lemmas sanitize_specs =
  sanitize_BuildRef_spec sanitize_ServiceAccount_spec sanitize_Output_spec
  sanitize_Timeout_spec sanitize_Env_spec

text \<open>
  C9. Calling \<open>SanitizeBuildRunSpec\<close> with a \<open>nil\<close> pointer returns at once: there is no
  spec behind the pointer before the call and none after it, and no panic.
\<close>

theorem SanitizeBuildRunSpec_nil:
  "SanitizeBuildRunSpec None = None"
  by (simp add: SanitizeBuildRunSpec_def)

text \<open>
  C10. Whenever the image of \<open>Output\<close> is empty and its credentials are absent or have an
  empty name, \<open>SanitizeBuildRunSpec\<close> sets \<open>Output\<close> to \<open>nil\<close>, whatever its labels and
  annotations hold: they are never inspected.
\<close>

theorem SanitizeBuildRunSpec_drops_Output_despite_labels:
  assumes "Output br = Some out"
    and "Image out = []"
    and "Credentials out = None \<or> (\<exists>c. Credentials out = Some c \<and> cred_Name c = [])"
  shows "\<exists>br'. SanitizeBuildRunSpec (Some br) = Some br' \<and> Output br' = None"
proof -
  obtain br' where s: "SanitizeBuildRunSpec (Some br) = Some br'"
    and o: "Output br' = Output (sanitize_Output br)"
    using Sanitize_Some[of br] by blast
  from assms have "Output (sanitize_Output br) = None"
    by (auto simp: sanitize_Output_spec split: option.splits)
  with s o show ?thesis by simp
qed

text \<open>An output with a label and an annotation, and credentials of empty name.\<close>

theorem SanitizeBuildRunSpec_drops_Output_despite_labels_witness:
  "Output spec_annotated =
     Some \<lparr>Image = [], Credentials = Some \<lparr>cred_Name = []\<rparr>,
           Labels = [''team'' \<mapsto> ''a''], Annotations = [''note'' \<mapsto> ''x'']\<rparr> \<and>
   [''team'' \<mapsto> ''a''] ''team'' = Some ''a'' \<and>
   [''note'' \<mapsto> ''x''] ''note'' = Some ''x'' \<and>
   (\<exists>br'. SanitizeBuildRunSpec (Some spec_annotated) = Some br' \<and> Output br' = None)"
proof -
  let ?out = "\<lparr>Image = [], Credentials = Some \<lparr>cred_Name = []\<rparr>,
                     Labels = [''team'' \<mapsto> ''a''], Annotations = [''note'' \<mapsto> ''x'']\<rparr>"
  have a: "Output spec_annotated = Some ?out" by (simp add: spec_annotated_def)
  have b: "Image ?out = []" by simp
  have c: "Credentials ?out = None \<or> (\<exists>c. Credentials ?out = Some c \<and> cred_Name c = [])" by simp
  show ?thesis
    using SanitizeBuildRunSpec_drops_Output_despite_labels[OF a b c] a
    by simp
qed

text \<open>
  C8 as stated fails: an \<open>Output\<close> whose labels are not empty has a non-zero field, and
  is replaced by \<open>nil\<close> all the same.
\<close>

theorem Sanitize_labels_counterexample:
  "Output spec_labels_only =
     Some \<lparr>Image = [], Credentials = None,
           Labels = [''team'' \<mapsto> ''a''], Annotations = Map.empty\<rparr> \<and>
   [''team'' \<mapsto> ''a''] ''team'' = Some ''a'' \<and>
   SanitizeBuildRunSpec (Some spec_labels_only) =
     Some \<lparr>BuildRef = None, ServiceAccount = None, Timeout = None, Output = None, Env = None\<rparr>"
  by (simp add: spec_labels_only_def SanitizeBuildRunSpec_def sanitize_BuildRef_def
      sanitize_ServiceAccount_def sanitize_Output_def sanitize_Credentials_def
      sanitize_Timeout_def sanitize_Env_def len_def)

lemma Sanitize_fields_exact:
  "\<exists>br'. SanitizeBuildRunSpec (Some br) = Some br' \<and>
     BuildRef br' =
       (case BuildRef br of
          None \<Rightarrow> None
        | Some b \<Rightarrow> if bref_Name b = [] \<and> APIVersion b = Some [] then None else Some b) \<and>
     ServiceAccount br' =
       (case ServiceAccount br of
          None \<Rightarrow> None
        | Some sa \<Rightarrow>
            if (sa_Name sa = None \<or> sa_Name sa = Some []) \<and>
               (Generate sa = None \<or> Generate sa = Some False)
            then None else Some sa) \<and>
     Output br' =
       (case Output br of
          None \<Rightarrow> None
        | Some out \<Rightarrow>
            (case Credentials out of
               None \<Rightarrow> if Image out = [] then None else Some out
             | Some c \<Rightarrow>
                 if cred_Name c = []
                 then (if Image out = [] then None else Some (out\<lparr>Credentials := None\<rparr>))
                 else Some out)) \<and>
     Timeout br' =
       (case Timeout br of
          None \<Rightarrow> None
        | Some d \<Rightarrow> if Duration d = 0 then None else Some d) \<and>
     Env br' =
       (case Env br of
          None \<Rightarrow> None
        | Some xs \<Rightarrow> if xs = [] then None else Some xs)"
  using Sanitize_Some[of br] by (simp only: sanitize_specs)

text \<open>
  C8, amended. For every spec, \<open>SanitizeBuildRunSpec\<close> replaces with \<open>nil\<close> each optional
  sub-structure whose inspected fields are zero: \<open>BuildRef\<close> with empty name and an API
  version pointing to the empty string, \<open>ServiceAccount\<close> with unset or empty name and
  unset or false generate flag, the credentials of \<open>Output\<close> with empty name, \<open>Output\<close>
  with empty image and no credentials or credentials of empty name, \<open>Timeout\<close> with zero
  duration, and \<open>Env\<close> of length zero. It leaves in place every sub-structure with a
  non-zero inspected field: \<open>BuildRef\<close> with a non-empty name or a non-empty API
  version, \<open>ServiceAccount\<close> with a non-empty name or a true generate flag, credentials
  with a non-empty name, \<open>Output\<close> with a non-empty image or credentials of non-empty
  name, \<open>Timeout\<close> with a non-zero duration, a non-empty \<open>Env\<close>. The labels and
  annotations of \<open>Output\<close> are not inspected and keep nothing in place.
\<close>

theorem SanitizeBuildRunSpec_fields:
  "\<exists>br'. SanitizeBuildRunSpec (Some br) = Some br' \<and>
     (\<forall>b. BuildRef br = Some b \<and> bref_Name b = [] \<and> APIVersion b = Some [] \<longrightarrow>
          BuildRef br' = None) \<and>
     (\<forall>sa. ServiceAccount br = Some sa \<and>
           (sa_Name sa = None \<or> sa_Name sa = Some []) \<and>
           (Generate sa = None \<or> Generate sa = Some False) \<longrightarrow>
          ServiceAccount br' = None) \<and>
     (\<forall>out c. Output br = Some out \<and> Credentials out = Some c \<and> cred_Name c = [] \<and>
           Image out \<noteq> [] \<longrightarrow>
          Output br' = Some (out\<lparr>Credentials := None\<rparr>)) \<and>
     (\<forall>out. Output br = Some out \<and> Image out = [] \<and>
           (Credentials out = None \<or> (\<exists>c. Credentials out = Some c \<and> cred_Name c = [])) \<longrightarrow>
          Output br' = None) \<and>
     (\<forall>d. Timeout br = Some d \<and> Duration d = 0 \<longrightarrow> Timeout br' = None) \<and>
     (len (Env br) = 0 \<longrightarrow> Env br' = None) \<and>
     (\<forall>b. BuildRef br = Some b \<and>
           (bref_Name b \<noteq> [] \<or> (\<exists>v. APIVersion b = Some v \<and> v \<noteq> [])) \<longrightarrow>
          BuildRef br' = Some b) \<and>
     (\<forall>sa. ServiceAccount br = Some sa \<and>
           ((\<exists>n. sa_Name sa = Some n \<and> n \<noteq> []) \<or> Generate sa = Some True) \<longrightarrow>
          ServiceAccount br' = Some sa) \<and>
     (\<forall>out c. Output br = Some out \<and> Credentials out = Some c \<and> cred_Name c \<noteq> [] \<longrightarrow>
          Output br' = Some out) \<and>
     (\<forall>out. Output br = Some out \<and> Image out \<noteq> [] \<and> Credentials out = None \<longrightarrow>
          Output br' = Some out) \<and>
     (\<forall>d. Timeout br = Some d \<and> Duration d \<noteq> 0 \<longrightarrow> Timeout br' = Some d) \<and>
     (\<forall>xs. Env br = Some xs \<and> xs \<noteq> [] \<longrightarrow> Env br' = Some xs)"
proof -
  from Sanitize_fields_exact[of br] obtain br' where
    s: "SanitizeBuildRunSpec (Some br) = Some br'"
    and bref: "BuildRef br' =
       (case BuildRef br of
          None \<Rightarrow> None
        | Some b \<Rightarrow> if bref_Name b = [] \<and> APIVersion b = Some [] then None else Some b)"
    and sa: "ServiceAccount br' =
       (case ServiceAccount br of
          None \<Rightarrow> None
        | Some sa \<Rightarrow>
            if (sa_Name sa = None \<or> sa_Name sa = Some []) \<and>
               (Generate sa = None \<or> Generate sa = Some False)
            then None else Some sa)"
    and out: "Output br' =
       (case Output br of
          None \<Rightarrow> None
        | Some out \<Rightarrow>
            (case Credentials out of
               None \<Rightarrow> if Image out = [] then None else Some out
             | Some c \<Rightarrow>
                 if cred_Name c = []
                 then (if Image out = [] then None else Some (out\<lparr>Credentials := None\<rparr>))
                 else Some out))"
    and tm: "Timeout br' =
       (case Timeout br of
          None \<Rightarrow> None
        | Some d \<Rightarrow> if Duration d = 0 then None else Some d)"
    and env: "Env br' =
       (case Env br of
          None \<Rightarrow> None
        | Some xs \<Rightarrow> if xs = [] then None else Some xs)"
    by blast
  have 1: "\<forall>b. BuildRef br = Some b \<and> bref_Name b = [] \<and> APIVersion b = Some [] \<longrightarrow>
          BuildRef br' = None"
    using bref by simp
  have 2: "\<forall>sa. ServiceAccount br = Some sa \<and>
           (sa_Name sa = None \<or> sa_Name sa = Some []) \<and>
           (Generate sa = None \<or> Generate sa = Some False) \<longrightarrow>
          ServiceAccount br' = None"
    using sa by simp
  have 3: "\<forall>out c. Output br = Some out \<and> Credentials out = Some c \<and> cred_Name c = [] \<and>
           Image out \<noteq> [] \<longrightarrow>
          Output br' = Some (out\<lparr>Credentials := None\<rparr>)"
    using out by simp
  have 4: "\<forall>out. Output br = Some out \<and> Image out = [] \<and>
           (Credentials out = None \<or> (\<exists>c. Credentials out = Some c \<and> cred_Name c = [])) \<longrightarrow>
          Output br' = None"
    using out by auto
  have 5: "\<forall>d. Timeout br = Some d \<and> Duration d = 0 \<longrightarrow> Timeout br' = None"
    using tm by simp
  have 6: "len (Env br) = 0 \<longrightarrow> Env br' = None"
    using env by (simp add: len_def split: option.splits)
  have 7: "\<forall>b. BuildRef br = Some b \<and>
           (bref_Name b \<noteq> [] \<or> (\<exists>v. APIVersion b = Some v \<and> v \<noteq> [])) \<longrightarrow>
          BuildRef br' = Some b"
    using bref by auto
  have 8: "\<forall>sa. ServiceAccount br = Some sa \<and>
           ((\<exists>n. sa_Name sa = Some n \<and> n \<noteq> []) \<or> Generate sa = Some True) \<longrightarrow>
          ServiceAccount br' = Some sa"
    using sa by auto
  have 9: "\<forall>out c. Output br = Some out \<and> Credentials out = Some c \<and> cred_Name c \<noteq> [] \<longrightarrow>
          Output br' = Some out"
    using out by simp
  have 10: "\<forall>out. Output br = Some out \<and> Image out \<noteq> [] \<and> Credentials out = None \<longrightarrow>
          Output br' = Some out"
    using out by simp
  have 11: "\<forall>d. Timeout br = Some d \<and> Duration d \<noteq> 0 \<longrightarrow> Timeout br' = Some d"
    using tm by simp
  have 12: "\<forall>xs. Env br = Some xs \<and> xs \<noteq> [] \<longrightarrow> Env br' = Some xs"
    using env by simp
  show ?thesis
    by (intro exI[of _ br'] conjI) (rule s 1 2 3 4 5 6 7 8 9 10 11 12)+
qed

text \<open>
  Every inspected field zero; every sub-structure with an inspected field set and
  credentials of empty name beside an image; credentials with a name and no image; an
  image alone.
\<close>

theorem SanitizeBuildRunSpec_fields_witness:
  "SanitizeBuildRunSpec (Some spec_all_zero) =
     Some \<lparr>BuildRef = None, ServiceAccount = None, Timeout = None, Output = None, Env = None\<rparr> \<and>
   SanitizeBuildRunSpec (Some spec_all_set) =
     Some (spec_all_set\<lparr>Output := Some \<lparr>Image = ''img'', Credentials = None,
                     Labels = Map.empty, Annotations = Map.empty\<rparr>\<rparr>) \<and>
   SanitizeBuildRunSpec (Some spec_kept_output) = Some spec_kept_output \<and>
   SanitizeBuildRunSpec (Some spec_image_only) = Some spec_image_only"
proof -
  obtain z where z: "SanitizeBuildRunSpec (Some spec_all_zero) = Some z"
    and zf: "BuildRef z = None" "ServiceAccount z = None" "Output z = None"
            "Timeout z = None" "Env z = None"
    using SanitizeBuildRunSpec_fields[of spec_all_zero]
    by (auto simp: spec_all_zero_def len_def)
  obtain a where a: "SanitizeBuildRunSpec (Some spec_all_set) = Some a"
    and af: "BuildRef a = BuildRef spec_all_set" "ServiceAccount a = ServiceAccount spec_all_set"
            "Output a = Some \<lparr>Image = ''img'', Credentials = None,
                     Labels = Map.empty, Annotations = Map.empty\<rparr>"
            "Timeout a = Timeout spec_all_set" "Env a = Env spec_all_set"
    using SanitizeBuildRunSpec_fields[of spec_all_set]
    by (auto simp: spec_all_set_def)
  obtain k where k: "SanitizeBuildRunSpec (Some spec_kept_output) = Some k"
    and kf: "BuildRef k = BuildRef spec_kept_output"
            "ServiceAccount k = ServiceAccount spec_kept_output"
            "Output k = Output spec_kept_output"
            "len (Env spec_kept_output) = 0 \<longrightarrow> Env k = None"
    using SanitizeBuildRunSpec_fields[of spec_kept_output]
    by (auto simp: spec_kept_output_def)
  obtain m where m: "SanitizeBuildRunSpec (Some spec_image_only) = Some m"
    and mf: "Output m = Output spec_image_only"
            "len (Env spec_image_only) = 0 \<longrightarrow> Env m = None"
    using SanitizeBuildRunSpec_fields[of spec_image_only]
    by (auto simp: spec_image_only_def)
  have "z = \<lparr>BuildRef = None, ServiceAccount = None, Timeout = None, Output = None, Env = None\<rparr>"
    using zf by (cases z) simp
  moreover have "a = spec_all_set\<lparr>Output := Some \<lparr>Image = ''img'', Credentials = None,
                     Labels = Map.empty, Annotations = Map.empty\<rparr>\<rparr>"
    using af by (cases a) (simp add: spec_all_set_def)
  moreover have "Timeout k = None"
    using k by (auto simp: SanitizeBuildRunSpec_def sanitize_frames sanitize_Timeout_def
        spec_kept_output_def)
  then have "k = spec_kept_output"
    using kf by (cases k) (simp add: spec_kept_output_def len_def)
  moreover have "BuildRef m = None" "ServiceAccount m = None" "Timeout m = None"
    using m by (auto simp: SanitizeBuildRunSpec_def sanitize_frames sanitize_Timeout_def
        sanitize_BuildRef_def sanitize_ServiceAccount_def spec_image_only_def)
  then have "m = spec_image_only"
    using mf by (cases m) (simp add: spec_image_only_def len_def)
  ultimately show ?thesis using z a k m by simp
qed
section \<open>Properties of the reactive dispatcher\<close>

lemma tags_distinct:
  "Added \<noteq> Modified" "Added \<noteq> Deleted" "Modified \<noteq> Deleted"
  "Modified \<noteq> Added" "Deleted \<noteq> Added" "Deleted \<noteq> Modified"
  by (simp_all add: Added_def Modified_def Deleted_def)

lemma hook_for_tags:
  "hook_for p Added = onPodAddedFn p"
  "hook_for p Modified = onPodModifiedFn p"
  "hook_for p Deleted = onPodDeletedFn p"
  by (simp_all add: hook_for_def tags_distinct)

lemma call_hook_None:
  "call_hook tag None pod st = (None, st)"
  by (simp add: call_hook_def)

lemma call_hook_Some:
  "call_hook tag (Some h) pod st =
     (map_option (Pair pod) (fst (h pod (world st))),
      st\<lparr>world := snd (h pod (world st)), calls := calls st @ [(tag, pod)]\<rparr>)"
  by (simp add: call_hook_def Let_def split: option.splits)

lemma on_event_no_pod:
  "Object event = None \<or> Object event = Some OtherObject \<Longrightarrow> on_event p event st = (None, st)"
  by (auto simp: on_event_def)

lemma on_event_pod:
  assumes "Object event = Some (PodObject pod)"
  shows "on_event p event st =
     (let sk = (case skipPodFn p of None \<Rightarrow> (False, world st) | Some f \<Rightarrow> f pod (world st));
          st1 = st\<lparr>world := snd sk\<rparr>
      in if fst sk then (None, st1) else call_hook (Type event) (hook_for p (Type event)) pod st1)"
  using assms
  by (simp add: on_event_def Let_def hook_for_def call_hook_None)

lemma on_event_calls:
  "calls (snd (on_event p event st)) = calls st \<or>
   (\<exists>pod. Object event = Some (PodObject pod) \<and> hook_for p (Type event) \<noteq> None \<and>
      calls (snd (on_event p event st)) = calls st @ [(Type event, pod)])"
proof (cases "Object event")
  case None
  then show ?thesis by (simp add: on_event_no_pod)
next
  case (Some obj)
  show ?thesis
  proof (cases obj)
    case OtherObject
    with Some show ?thesis by (simp add: on_event_no_pod)
  next
    case (PodObject pod)
    with Some have o: "Object event = Some (PodObject pod)" by simp
    show ?thesis
      by (cases "hook_for p (Type event)")
         (simp_all add: on_event_pod[OF o] Let_def call_hook_None call_hook_Some o)
  qed
qed

lemma Start_continue:
  "on_event p event st = (None, st') \<Longrightarrow>
     PodWatcher_Start p (RecvEvent event # cs) st = PodWatcher_Start p cs st'"
  by simp

lemma Start_return:
  "on_event p event st = (Some (pod, err), st') \<Longrightarrow>
     PodWatcher_Start p (RecvEvent event # cs) st = (Returned pod (Some err), st', cs)"
  by simp

lemma Start_Waiting_append:
  "PodWatcher_Start p pre st = (Waiting, st1, r) \<Longrightarrow>
     PodWatcher_Start p (pre @ rest) st = PodWatcher_Start p rest st1"
proof (induction pre arbitrary: st)
  case Nil
  then show ?case by simp
next
  case (Cons c pre)
  show ?case
  proof (cases c)
    case (RecvEvent event)
    obtain res st' where oe: "on_event p event st = (res, st')" by (cases "on_event p event st")
    show ?thesis
    proof (cases res)
      case None
      with oe Cons.prems RecvEvent have "PodWatcher_Start p pre st' = (Waiting, st1, r)" by simp
      from Cons.IH[OF this] oe None RecvEvent show ?thesis by simp
    next
      case (Some pe)
      with oe Cons.prems RecvEvent show ?thesis by (cases pe) simp
    qed
  next
    case RecvCtxDone
    with Cons.prems show ?thesis by simp
  next
    case RecvStopCh
    with Cons.prems show ?thesis by simp
  qed
qed

lemma Start_calls:
  "\<exists>new. calls (fst (snd (PodWatcher_Start p sched st))) = calls st @ new \<and>
      subseq new (deliveries sched) \<and>
      (\<forall>c \<in> set new. hook_for p (fst c) \<noteq> None)"
proof (induction sched arbitrary: st)
  case Nil
  then show ?case by simp
next
  case (Cons c sched)
  show ?case
  proof (cases c)
    case (RecvEvent event)
    obtain res st' where oe: "on_event p event st = (res, st')" by (cases "on_event p event st")
    from on_event_calls[of p event st] oe
    have step: "calls st' = calls st \<or>
      (\<exists>pod. Object event = Some (PodObject pod) \<and> hook_for p (Type event) \<noteq> None \<and>
         calls st' = calls st @ [(Type event, pod)])" by simp
    define fin where "fin = fst (snd (PodWatcher_Start p (c # sched) st))"
    have fin_cases: "fin = st' \<or> fin = fst (snd (PodWatcher_Start p sched st'))"
      unfolding fin_def using oe RecvEvent by (cases res) (auto split: prod.splits)
    from Cons.IH[of st'] obtain new where
      n1: "calls (fst (snd (PodWatcher_Start p sched st'))) = calls st' @ new"
      and n2: "subseq new (deliveries sched)"
      and n3: "\<forall>c \<in> set new. hook_for p (fst c) \<noteq> None" by blast
    have "\<exists>new'. calls fin = calls st' @ new' \<and> subseq new' (deliveries sched) \<and>
        (\<forall>c \<in> set new'. hook_for p (fst c) \<noteq> None)"
    proof -
      from fin_cases show ?thesis
      proof
        assume "fin = st'"
        then have "calls fin = calls st' @ []" by simp
        moreover have "subseq [] (deliveries sched)" by simp
        ultimately show ?thesis by fastforce
      next
        assume "fin = fst (snd (PodWatcher_Start p sched st'))"
        with n1 n2 n3 show ?thesis by blast
      qed
    qed
    then obtain new' where m1: "calls fin = calls st' @ new'"
      and m2: "subseq new' (deliveries sched)"
      and m3: "\<forall>c \<in> set new'. hook_for p (fst c) \<noteq> None" by blast
    from step show ?thesis
    proof
      assume same: "calls st' = calls st"
      have "subseq new' (deliveries (c # sched))"
        using m2 RecvEvent
        by (auto split: option.splits runtime_Object.splits)
      with m1 m3 same show ?thesis unfolding fin_def by auto
    next
      assume "\<exists>pod. Object event = Some (PodObject pod) \<and> hook_for p (Type event) \<noteq> None \<and>
         calls st' = calls st @ [(Type event, pod)]"
      then obtain pod where o: "Object event = Some (PodObject pod)"
        and h: "hook_for p (Type event) \<noteq> None"
        and cs: "calls st' = calls st @ [(Type event, pod)]" by blast
      have d: "deliveries (c # sched) = (Type event, pod) # deliveries sched"
        using RecvEvent o by simp
      have "calls fin = calls st @ ((Type event, pod) # new')" using m1 cs by simp
      moreover have "subseq ((Type event, pod) # new') (deliveries (c # sched))"
        using m2 d by simp
      moreover have "\<forall>c \<in> set ((Type event, pod) # new'). hook_for p (fst c) \<noteq> None"
        using m3 h by simp
      ultimately show ?thesis unfolding fin_def by blast
    qed
  next
    case RecvCtxDone
    then show ?thesis by simp
  next
    case RecvStopCh
    then show ?thesis by simp
  qed
qed

lemmas demo_defs =
  demo_watcher_def demo_state_def ev_def on_event_def call_hook_def
  Added_def Modified_def Deleted_def Let_def

text \<open>
  C2. Let the loop be still running after the cases \<open>pre\<close>, and let the next case be a
  notification with a pod that the skip predicate does not suppress and whose tag has a
  registered hook. If that hook returns an error, \<open>Start\<close> returns this notification's
  pod together with that error; the hook call is the last one recorded, and everything
  after the notification is left unprocessed.
\<close>

theorem Start_hook_error_fails_fast:
  assumes "PodWatcher_Start p pre st0 = (Waiting, st1, r)"
    and "Object event = Some (PodObject pod)"
    and "sk = (case skipPodFn p of None \<Rightarrow> (False, world st1) | Some f \<Rightarrow> f pod (world st1))"
    and "\<not> fst sk"
    and "hook_for p (Type event) = Some h"
    and "h pod (snd sk) = (Some err, w)"
  shows "PodWatcher_Start p (pre @ RecvEvent event # rest) st0 =
           (Returned pod (Some err),
            st1\<lparr>world := w, calls := calls st1 @ [(Type event, pod)]\<rparr>,
            rest)"
proof -
  have "on_event p event st1 =
          (Some (pod, err), st1\<lparr>world := w, calls := calls st1 @ [(Type event, pod)]\<rparr>)"
    using assms(3-6) by (simp add: on_event_pod[OF assms(2)] Let_def call_hook_Some)
  then have "PodWatcher_Start p (RecvEvent event # rest) st1 =
          (Returned pod (Some err),
           st1\<lparr>world := w, calls := calls st1 @ [(Type event, pod)]\<rparr>, rest)"
    by (rule Start_return)
  with Start_Waiting_append[OF assms(1)] show ?thesis by simp
qed

text \<open>
  The second notification's hook fails; the two after it are never looked at.
\<close>

theorem Start_hook_error_fails_fast_witness:
  "PodWatcher_Start demo_watcher
     ([ev Added ''p1''] @
      RecvEvent \<lparr>Type = Modified, Object = Some (PodObject (Some ''failed-pod''))\<rparr> #
      [ev Added ''p2'', ev Modified ''failed-pod'']) demo_state =
   (Returned (Some ''failed-pod'') (Some ''build failed''),
    \<lparr>world = 2, calls = [(Added, Some ''p1''), (Modified, Some ''failed-pod'')],
     watcher_stops = 0\<rparr>,
    [ev Added ''p2'', ev Modified ''failed-pod''])"
proof -
  let ?st1 = "\<lparr>world = Suc 0, calls = [(Added, Some ''p1'')], watcher_stops = 0\<rparr>
                :: (string, nat) loop_state"
  let ?event = "\<lparr>Type = Modified, Object = Some (PodObject (Some ''failed-pod''))\<rparr>"
  let ?h = "\<lambda>pod w. (if pod = Some ''failed-pod'' then Some ''build failed'' else None, Suc w)"
  have a: "PodWatcher_Start demo_watcher [ev Added ''p1''] demo_state = (Waiting, ?st1, [])"
    by (simp add: demo_defs)
  have b: "Object ?event = Some (PodObject (Some ''failed-pod''))" by simp
  have c: "(False, Suc 0) =
      (case skipPodFn demo_watcher of None \<Rightarrow> (False, world ?st1)
       | Some f \<Rightarrow> f (Some ''failed-pod'') (world ?st1))"
    by (simp add: demo_watcher_def)
  have d: "\<not> fst (False, Suc 0)" by simp
  have e: "hook_for demo_watcher (Type ?event) = Some ?h"
    by (simp add: hook_for_tags demo_watcher_def)
  have f: "?h (Some ''failed-pod'') (snd (False, Suc 0)) = (Some ''build failed'', 2)"
    by simp
  show ?thesis
    using Start_hook_error_fails_fast[OF a b c d e f, of "[ev Added ''p2'', ev Modified ''failed-pod'']"]
    by simp
qed

text \<open>
  C3. Let the loop be still running after the cases \<open>pre\<close>, whatever notifications they
  held. When \<open>select\<close> then takes the context's \<open>Done\<close> case or the stop channel's case,
  \<open>Start\<close> calls \<open>Stop\<close> on the watch subscription once and returns a \<open>nil\<close> pod and a
  \<open>nil\<close> error; nothing else changes and what follows is left unprocessed.
\<close>

theorem Start_stop_or_cancel:
  assumes "PodWatcher_Start p pre st0 = (Waiting, st1, r)"
    and "c = RecvCtxDone \<or> c = RecvStopCh"
  shows "PodWatcher_Start p (pre @ c # rest) st0 =
           (Returned None None, st1\<lparr>watcher_stops := Suc (watcher_stops st1)\<rparr>, rest)"
  using assms(2) Start_Waiting_append[OF assms(1), of "c # rest"] by auto

text \<open>
  Two notifications handled, then the stop channel, and the same with the context.
\<close>

theorem Start_stop_or_cancel_witness:
  "PodWatcher_Start demo_watcher
     ([ev Added ''p1'', ev Modified ''p1''] @ RecvStopCh # [ev Modified ''failed-pod'']) demo_state =
     (Returned None None,
      \<lparr>world = 2, calls = [(Added, Some ''p1''), (Modified, Some ''p1'')], watcher_stops = 1\<rparr>,
      [ev Modified ''failed-pod'']) \<and>
   PodWatcher_Start demo_watcher
     ([ev Added ''p1'', ev Modified ''p1''] @ RecvCtxDone # [ev Modified ''failed-pod'']) demo_state =
     (Returned None None,
      \<lparr>world = 2, calls = [(Added, Some ''p1''), (Modified, Some ''p1'')], watcher_stops = 1\<rparr>,
      [ev Modified ''failed-pod''])"
proof -
  let ?st1 = "\<lparr>world = 2, calls = [(Added, Some ''p1''), (Modified, Some ''p1'')],
                watcher_stops = 0\<rparr> :: (string, nat) loop_state"
  have a: "PodWatcher_Start demo_watcher [ev Added ''p1'', ev Modified ''p1''] demo_state =
             (Waiting, ?st1, [])"
    by (simp add: demo_defs)
  have s: "(RecvStopCh :: string select_case) = RecvCtxDone \<or>
           (RecvStopCh :: string select_case) = RecvStopCh" by simp
  have c: "(RecvCtxDone :: string select_case) = RecvCtxDone \<or>
           (RecvCtxDone :: string select_case) = RecvStopCh" by simp
  show ?thesis
    using Start_stop_or_cancel[OF a s, of "[ev Modified ''failed-pod'']"]
          Start_stop_or_cancel[OF a c, of "[ev Modified ''failed-pod'']"]
    by simp
qed

text \<open>
  C5. A notification with no payload, or with a payload that is not a pod, changes
  nothing: no hook and no skip predicate runs, \<open>Start\<close> does not return, and the loop
  goes on with the next case from the same state.
\<close>

theorem Start_drops_non_pod:
  assumes "Object event = None \<or> Object event = Some OtherObject"
  shows "PodWatcher_Start p (RecvEvent event # rest) st = PodWatcher_Start p rest st"
  using on_event_no_pod[OF assms, of p st] by simp

text \<open>
  A notification without payload and one with a foreign payload, then a pod.
\<close>

theorem Start_drops_non_pod_witness:
  "PodWatcher_Start demo_watcher
     [RecvEvent \<lparr>Type = Added, Object = None\<rparr>,
      RecvEvent \<lparr>Type = Modified, Object = Some OtherObject\<rparr>,
      ev Added ''p1''] demo_state =
   (Waiting, \<lparr>world = 1, calls = [(Added, Some ''p1'')], watcher_stops = 0\<rparr>, [])"
proof -
  have a: "Object \<lparr>Type = Added, Object = (None :: string runtime_Object option)\<rparr> = None \<or>
           Object \<lparr>Type = Added, Object = (None :: string runtime_Object option)\<rparr> = Some OtherObject"
    by simp
  have b: "Object \<lparr>Type = Modified, Object = Some (OtherObject :: string runtime_Object)\<rparr> = None \<or>
           Object \<lparr>Type = Modified, Object = Some (OtherObject :: string runtime_Object)\<rparr> = Some OtherObject"
    by simp
  have c: "PodWatcher_Start demo_watcher [ev Added ''p1''] demo_state =
     (Waiting, \<lparr>world = 1, calls = [(Added, Some ''p1'')], watcher_stops = 0\<rparr>, [])"
    by (simp add: demo_defs)
  show ?thesis
    using Start_drops_non_pod[OF a, of demo_watcher _ demo_state]
          Start_drops_non_pod[OF b, of demo_watcher "[ev Added ''p1'']" demo_state] c
    by simp
qed

text \<open>
  C4. For every sequence of cases taken by \<open>Start\<close>, the hook calls it adds to the
  record form a subsequence of the pod notifications in delivery order, each call under
  the tag of its notification, so at most one hook runs per notification and only a
  registered one. A notification for which the skip predicate is set and returns true
  runs no hook: the loop goes on with the next case, only the predicate's own effect on
  the captured state being kept. A notification whose tag has no registered hook, as
  \<open>Deleted\<close> without a delete hook, runs no hook and does not return: the loop goes on
  with the next case, from the state as the skip predicate (asked only when the
  payload is a pod) left it. A pod notification that is not skipped and whose tag has a
  registered hook runs exactly that hook, once, on that pod and on the captured state as
  the skip predicate left it: the state after the step is the one the hook returns and
  the call is recorded; the loop goes on with the next case when the hook returns no
  error and returns the pod with the error otherwise. The hook registered for a tag is
  the add hook for \<open>Added\<close>, the modify hook for \<open>Modified\<close>, the delete hook for
  \<open>Deleted\<close>, and none for any other tag.
\<close>

theorem Start_dispatch_order:
  "(\<exists>new. calls (fst (snd (PodWatcher_Start p sched st))) = calls st @ new \<and>
      subseq new (deliveries sched) \<and>
      (\<forall>c \<in> set new. hook_for p (fst c) \<noteq> None)) \<and>
   (skipPodFn p = Some f \<and> Object event = Some (PodObject pod) \<and> fst (f pod (world st)) \<longrightarrow>
      PodWatcher_Start p (RecvEvent event # rest) st =
        PodWatcher_Start p rest (st\<lparr>world := snd (f pod (world st))\<rparr>)) \<and>
   (hook_for p (Type event) = None \<longrightarrow>
      PodWatcher_Start p (RecvEvent event # rest) st =
        PodWatcher_Start p rest
          (st\<lparr>world :=
               (case Object event of
                  Some (PodObject pod') \<Rightarrow>
                    (case skipPodFn p of
                       None \<Rightarrow> world st
                     | Some g \<Rightarrow> snd (g pod' (world st)))
                | _ \<Rightarrow> world st)\<rparr>)) \<and>
   (Object event = Some (PodObject pod) \<and>
    sk = (case skipPodFn p of None \<Rightarrow> (False, world st) | Some g \<Rightarrow> g pod (world st)) \<and>
    \<not> fst sk \<and> hook_for p (Type event) = Some h \<longrightarrow>
      (h pod (snd sk) = (None, w) \<longrightarrow>
         PodWatcher_Start p (RecvEvent event # rest) st =
           PodWatcher_Start p rest
             (st\<lparr>world := w, calls := calls st @ [(Type event, pod)]\<rparr>)) \<and>
      (h pod (snd sk) = (Some err, w) \<longrightarrow>
         PodWatcher_Start p (RecvEvent event # rest) st =
           (Returned pod (Some err),
            st\<lparr>world := w, calls := calls st @ [(Type event, pod)]\<rparr>,
            rest))) \<and>
   (hook_for p Added = onPodAddedFn p \<and>
    hook_for p Modified = onPodModifiedFn p \<and>
    hook_for p Deleted = onPodDeletedFn p \<and>
    (\<forall>ty. ty \<noteq> Added \<and> ty \<noteq> Modified \<and> ty \<noteq> Deleted \<longrightarrow> hook_for p ty = None))"
proof (intro conjI impI)
  show "\<exists>new. calls (fst (snd (PodWatcher_Start p sched st))) = calls st @ new \<and>
      subseq new (deliveries sched) \<and> (\<forall>c \<in> set new. hook_for p (fst c) \<noteq> None)"
    by (rule Start_calls)
next
  assume a: "skipPodFn p = Some f \<and> Object event = Some (PodObject pod) \<and> fst (f pod (world st))"
  then have o: "Object event = Some (PodObject pod)" by simp
  have "on_event p event st = (None, st\<lparr>world := snd (f pod (world st))\<rparr>)"
    using a by (simp add: on_event_pod[OF o] Let_def)
  then show "PodWatcher_Start p (RecvEvent event # rest) st =
        PodWatcher_Start p rest (st\<lparr>world := snd (f pod (world st))\<rparr>)"
    by (rule Start_continue)
next
  assume h: "hook_for p (Type event) = None"
  let ?w = "case Object event of
              Some (PodObject pod') \<Rightarrow>
                (case skipPodFn p of
                   None \<Rightarrow> world st
                 | Some g \<Rightarrow> snd (g pod' (world st)))
            | _ \<Rightarrow> world st"
  have "on_event p event st = (None, st\<lparr>world := ?w\<rparr>)"
  proof (cases "Object event")
    case None
    then show ?thesis by (simp add: on_event_no_pod)
  next
    case (Some obj)
    show ?thesis
    proof (cases obj)
      case OtherObject
      with Some show ?thesis by (simp add: on_event_no_pod)
    next
      case (PodObject pod')
      with Some have o: "Object event = Some (PodObject pod')" by simp
      show ?thesis
        using h
        by (simp add: on_event_pod[OF o] o Let_def call_hook_None split: option.splits)
    qed
  qed
  then show "PodWatcher_Start p (RecvEvent event # rest) st =
         PodWatcher_Start p rest (st\<lparr>world := ?w\<rparr>)"
    by (rule Start_continue)
next
  assume a: "Object event = Some (PodObject pod) \<and>
    sk = (case skipPodFn p of None \<Rightarrow> (False, world st) | Some g \<Rightarrow> g pod (world st)) \<and>
    \<not> fst sk \<and> hook_for p (Type event) = Some h"
    and r: "h pod (snd sk) = (None, w)"
  from a have o: "Object event = Some (PodObject pod)"
    and skd: "sk = (case skipPodFn p of None \<Rightarrow> (False, world st) | Some g \<Rightarrow> g pod (world st))"
    and ns: "\<not> fst sk" and hh: "hook_for p (Type event) = Some h" by blast+
  have "on_event p event st =
          (None, st\<lparr>world := w, calls := calls st @ [(Type event, pod)]\<rparr>)"
    unfolding on_event_pod[OF o] Let_def skd[symmetric]
    using ns hh r by (simp add: call_hook_Some)
  then show "PodWatcher_Start p (RecvEvent event # rest) st =
           PodWatcher_Start p rest
             (st\<lparr>world := w, calls := calls st @ [(Type event, pod)]\<rparr>)"
    by (rule Start_continue)
next
  assume a: "Object event = Some (PodObject pod) \<and>
    sk = (case skipPodFn p of None \<Rightarrow> (False, world st) | Some g \<Rightarrow> g pod (world st)) \<and>
    \<not> fst sk \<and> hook_for p (Type event) = Some h"
    and r: "h pod (snd sk) = (Some err, w)"
  from a have o: "Object event = Some (PodObject pod)"
    and skd: "sk = (case skipPodFn p of None \<Rightarrow> (False, world st) | Some g \<Rightarrow> g pod (world st))"
    and ns: "\<not> fst sk" and hh: "hook_for p (Type event) = Some h" by blast+
  have "on_event p event st =
          (Some (pod, err), st\<lparr>world := w, calls := calls st @ [(Type event, pod)]\<rparr>)"
    unfolding on_event_pod[OF o] Let_def skd[symmetric]
    using ns hh r by (simp add: call_hook_Some)
  then show "PodWatcher_Start p (RecvEvent event # rest) st =
           (Returned pod (Some err),
            st\<lparr>world := w, calls := calls st @ [(Type event, pod)]\<rparr>,
            rest)"
    by (rule Start_return)
next
  show "hook_for p Added = onPodAddedFn p" by (rule hook_for_tags)
  show "hook_for p Modified = onPodModifiedFn p" by (rule hook_for_tags)
  show "hook_for p Deleted = onPodDeletedFn p" by (rule hook_for_tags)
  show "\<forall>ty. ty \<noteq> Added \<and> ty \<noteq> Modified \<and> ty \<noteq> Deleted \<longrightarrow> hook_for p ty = None"
    by (simp add: hook_for_def)
qed

text \<open>
  Six notifications on the watcher that leaves marks. The first runs the add hook, the
  second is skipped, the third has no hook, the fourth runs the modify hook, the fifth
  makes the modify hook fail, and the sixth is never looked at. The counter tells which
  closures ran: five times the skip predicate, once the add hook, twice the modify hook.
\<close>

theorem Start_dispatch_order_witness:
  "PodWatcher_Start tally_watcher
      [ev Added ''p1'', ev Modified ''other-pod'', ev Deleted ''p1'', ev Modified ''p1'',
       ev Modified ''failed-pod'', ev Added ''p2''] demo_state =
     (Returned (Some ''failed-pod'') (Some ''build failed''),
      \<lparr>world = 5021,
       calls = [(Added, Some ''p1''), (Modified, Some ''p1''), (Modified, Some ''failed-pod'')],
       watcher_stops = 0\<rparr>,
      [ev Added ''p2'']) \<and>
   deliveries [ev Added ''p1'', ev Modified ''other-pod'', ev Deleted ''p1'', ev Modified ''p1'',
       ev Modified ''failed-pod'', ev Added ''p2''] =
     [(Added, Some ''p1''), (Modified, Some ''other-pod''), (Deleted, Some ''p1''),
      (Modified, Some ''p1''), (Modified, Some ''failed-pod''), (Added, Some ''p2'')] \<and>
   PodWatcher_Start tally_watcher [ev Added ''p1''] demo_state =
     (Waiting, \<lparr>world = 1001, calls = [(Added, Some ''p1'')], watcher_stops = 0\<rparr>, []) \<and>
   PodWatcher_Start tally_watcher [ev Modified ''other-pod''] demo_state =
     (Waiting, \<lparr>world = 1000, calls = [], watcher_stops = 0\<rparr>, []) \<and>
   PodWatcher_Start tally_watcher [ev Deleted ''p1''] demo_state =
     (Waiting, \<lparr>world = 1000, calls = [], watcher_stops = 0\<rparr>, []) \<and>
   PodWatcher_Start tally_watcher [ev Modified ''p1''] demo_state =
     (Waiting, \<lparr>world = 1010, calls = [(Modified, Some ''p1'')], watcher_stops = 0\<rparr>, []) \<and>
   PodWatcher_Start tally_watcher [ev Modified ''failed-pod'', ev Added ''p2''] demo_state =
     (Returned (Some ''failed-pod'') (Some ''build failed''),
      \<lparr>world = 1010, calls = [(Modified, Some ''failed-pod'')], watcher_stops = 0\<rparr>,
      [ev Added ''p2''])"
proof -
  let ?skip = "\<lambda>pod (w :: nat). (pod = Some ''other-pod'', w + 1000)"
  let ?add = "\<lambda>(pod :: string option) (w :: nat). (None :: string option, w + 1)"
  let ?modify = "\<lambda>pod (w :: nat).
      (if pod = Some ''failed-pod'' then Some ''build failed'' else None, w + 10)"
  let ?e = "\<lambda>ty name. \<lparr>Type = ty, Object = Some (PodObject (Some name))\<rparr>"
  have sk: "skipPodFn tally_watcher = Some ?skip" by (simp add: tally_watcher_def)
  have w0: "world demo_state = 0" by (simp add: demo_state_def)
  have ha: "hook_for tally_watcher (Type (?e Added ''p1'')) = Some ?add"
    by (simp add: hook_for_tags tally_watcher_def)
  have hm: "hook_for tally_watcher (Type (?e Modified ''p1'')) = Some ?modify"
    "hook_for tally_watcher (Type (?e Modified ''failed-pod'')) = Some ?modify"
    by (simp_all add: hook_for_tags tally_watcher_def)
  have hd: "hook_for tally_watcher (Type (?e Deleted ''p1'')) = None"
    by (simp add: hook_for_tags tally_watcher_def)
  have e0: "PodWatcher_Start tally_watcher [] st = (Waiting, st, [])" for st
    by simp
  \<comment> \<open>the add hook runs\<close>
  have added: "PodWatcher_Start tally_watcher [ev Added ''p1''] demo_state =
     (Waiting, \<lparr>world = 1001, calls = [(Added, Some ''p1'')], watcher_stops = 0\<rparr>, [])"
    using Start_dispatch_order[of tally_watcher "[]" demo_state ?skip "?e Added ''p1''"
            "Some ''p1''" "[]" "(False, 1000)" ?add 1001]
          sk w0 ha
    by (simp add: ev_def demo_state_def)
  \<comment> \<open>the skip predicate suppresses the notification\<close>
  have skipped: "PodWatcher_Start tally_watcher [ev Modified ''other-pod''] demo_state =
     (Waiting, \<lparr>world = 1000, calls = [], watcher_stops = 0\<rparr>, [])"
    using Start_dispatch_order[of tally_watcher "[]" demo_state ?skip "?e Modified ''other-pod''"
            "Some ''other-pod''" "[]"]
          sk w0
    by (simp add: ev_def demo_state_def)
  \<comment> \<open>no delete hook\<close>
  have deleted: "PodWatcher_Start tally_watcher [ev Deleted ''p1''] demo_state =
     (Waiting, \<lparr>world = 1000, calls = [], watcher_stops = 0\<rparr>, [])"
    using Start_dispatch_order[of tally_watcher "[]" demo_state ?skip "?e Deleted ''p1''"
            "Some ''p1''" "[]"]
          sk w0 hd
    by (simp add: ev_def demo_state_def)
  \<comment> \<open>the modify hook runs\<close>
  have modified: "PodWatcher_Start tally_watcher [ev Modified ''p1''] demo_state =
     (Waiting, \<lparr>world = 1010, calls = [(Modified, Some ''p1'')], watcher_stops = 0\<rparr>, [])"
    using Start_dispatch_order[of tally_watcher "[]" demo_state ?skip "?e Modified ''p1''"
            "Some ''p1''" "[]" "(False, 1000)" ?modify 1010]
          sk w0 hm
    by (simp add: ev_def demo_state_def)
  \<comment> \<open>the modify hook fails\<close>
  have failed: "PodWatcher_Start tally_watcher [ev Modified ''failed-pod'', ev Added ''p2'']
       demo_state =
     (Returned (Some ''failed-pod'') (Some ''build failed''),
      \<lparr>world = 1010, calls = [(Modified, Some ''failed-pod'')], watcher_stops = 0\<rparr>,
      [ev Added ''p2''])"
    using Start_dispatch_order[of tally_watcher "[]" demo_state ?skip "?e Modified ''failed-pod''"
            "Some ''failed-pod''" "[ev Added ''p2'']" "(False, 1000)" ?modify 1010 "''build failed''"]
          sk w0 hm
    by (simp add: ev_def demo_state_def)
  have whole: "PodWatcher_Start tally_watcher
      [ev Added ''p1'', ev Modified ''other-pod'', ev Deleted ''p1'', ev Modified ''p1'',
       ev Modified ''failed-pod'', ev Added ''p2''] demo_state =
     (Returned (Some ''failed-pod'') (Some ''build failed''),
      \<lparr>world = 5021,
       calls = [(Added, Some ''p1''), (Modified, Some ''p1''), (Modified, Some ''failed-pod'')],
       watcher_stops = 0\<rparr>,
      [ev Added ''p2''])"
    by (simp add: tally_watcher_def demo_state_def ev_def on_event_def call_hook_def
        Added_def Modified_def Deleted_def Let_def)
  have dels: "deliveries [ev Added ''p1'', ev Modified ''other-pod'', ev Deleted ''p1'',
       ev Modified ''p1'', ev Modified ''failed-pod'', ev Added ''p2''] =
     [(Added, Some ''p1''), (Modified, Some ''other-pod''), (Deleted, Some ''p1''),
      (Modified, Some ''p1''), (Modified, Some ''failed-pod''), (Added, Some ''p2'')]"
    by (simp add: ev_def)
  from whole dels added skipped deleted modified failed show ?thesis by blast
qed
section \<open>Properties of the tail coordinator\<close>

lemma HasPrefix_iff: "HasPrefix s pre \<longleftrightarrow> (\<exists>r. s = pre @ r)"
proof
  assume "HasPrefix s pre"
  then have "s = pre @ drop (length pre) s"
    by (metis HasPrefix_def append_take_drop_id)
  then show "\<exists>r. s = pre @ r" ..
next
  assume "\<exists>r. s = pre @ r"
  then show "HasPrefix s pre" by (auto simp: HasPrefix_def)
qed

lemma TrimPrefix_append: "TrimPrefix (pre @ r) pre = r"
  by (simp add: TrimPrefix_def HasPrefix_iff)

lemma TrimPrefix_other: "\<not> (\<exists>r. s = pre @ r) \<Longrightarrow> TrimPrefix s pre = s"
  by (simp add: TrimPrefix_def HasPrefix_iff)

lemma exec_scan_Cons:
  "i < length (tasks s) \<Longrightarrow> tasks s ! i = ReaderScan d (l # ls) \<Longrightarrow>
     exec (RunTask i) s =
       Inr (s\<lparr>tail := (tail s)\<lparr>stdout := stdout (tail s) @ [format_line d l]\<rparr>,
              tasks := (tasks s)[i := ReaderScan d ls]\<rparr>)"
  by simp

lemma exec_scan_Nil:
  "i < length (tasks s) \<Longrightarrow> tasks s ! i = ReaderScan d [] \<Longrightarrow>
     exec (RunTask i) s = Inr (s\<lparr>tasks := (tasks s)[i := Finished]\<rparr>)"
  by simp

lemma exec_Finished:
  "tasks s ! i = Finished \<Longrightarrow> exec (RunTask i) s = Inr s"
  by (simp add: list_update_same_conv[THEN iffD2])

lemma run_Finished:
  "tasks s ! i = Finished \<Longrightarrow> run (replicate n (RunTask i)) s = Inr s"
  by (induction n) (simp_all add: exec_Finished del: exec.simps)

lemma run_scan:
  "i < length (tasks s) \<Longrightarrow> tasks s ! i = ReaderScan d ls \<Longrightarrow>
     \<exists>s'. run (replicate n (RunTask i)) s = Inr s' \<and>
          stdout (tail s') = stdout (tail s) @ map (format_line d) (take n ls) \<and>
          stderr (tail s') = stderr (tail s) \<and>
          tail_stopCh (tail s') = tail_stopCh (tail s)"
proof (induction n arbitrary: s ls)
  case 0
  then show ?case by simp
next
  case (Suc n)
  show ?case
  proof (cases ls)
    case Nil
    let ?s1 = "s\<lparr>tasks := (tasks s)[i := Finished]\<rparr>"
    have e: "exec (RunTask i) s = Inr ?s1"
      using Suc.prems Nil by (simp add: exec_scan_Nil)
    have "tasks ?s1 ! i = Finished" using Suc.prems(1) by simp
    then have "run (replicate n (RunTask i)) ?s1 = Inr ?s1" by (rule run_Finished)
    with e Nil show ?thesis by simp
  next
    case (Cons l ls')
    let ?s1 = "s\<lparr>tail := (tail s)\<lparr>stdout := stdout (tail s) @ [format_line d l]\<rparr>,
              tasks := (tasks s)[i := ReaderScan d ls']\<rparr>"
    have e: "exec (RunTask i) s = Inr ?s1"
      using Suc.prems Cons by (simp add: exec_scan_Cons)
    have "i < length (tasks ?s1)" "tasks ?s1 ! i = ReaderScan d ls'"
      using Suc.prems(1) by simp_all
    from Suc.IH[OF this] obtain s' where
      "run (replicate n (RunTask i)) ?s1 = Inr s'"
      "stdout (tail s') = stdout (tail ?s1) @ map (format_line d) (take n ls')"
      "stderr (tail s') = stderr (tail ?s1)"
      "tail_stopCh (tail s') = tail_stopCh (tail ?s1)" by blast
    with e Cons show ?thesis by simp
  qed
qed

text \<open>
  C6. Let task \<open>i\<close> be a reader about to open the stream of a container, and let the
  stream open. Running the task for one step more than \<open>n\<close> writes to the output sink,
  for each of the first \<open>n\<close> lines of the stream and in their order, exactly the text
  made of an opening bracket, the display name, a closing bracket, a space, the line and
  a newline, and writes nothing to the error sink. The display name is the container
  name without its leading \<open>step-\<close>, removed once, and the container name itself when
  it has no such prefix.
\<close>

theorem reader_writes_lines:
  assumes "i < length (tasks s)"
    and "tasks s ! i = ReaderOpen ns podName container"
    and "clientset (tail s) ns podName container = OpenStream ls"
  shows "\<exists>s' d. run (replicate (Suc n) (RunTask i)) s = Inr s' \<and>
           (\<forall>r. container = ''step-'' @ r \<longrightarrow> d = r) \<and>
           ((\<nexists>r. container = ''step-'' @ r) \<longrightarrow> d = container) \<and>
           stdout (tail s') =
             stdout (tail s) @ map (\<lambda>l. ''['' @ d @ ''] '' @ l @ [CHR 0x0A]) (take n ls) \<and>
           stderr (tail s') = stderr (tail s)"
proof -
  let ?d = "TrimPrefix container ''step-''"
  let ?s1 = "s\<lparr>tasks := (tasks s)[i := ReaderScan ?d ls]\<rparr>"
  have e: "exec (RunTask i) s = Inr ?s1"
    using assms by simp
  have "i < length (tasks ?s1)" "tasks ?s1 ! i = ReaderScan ?d ls"
    using assms(1) by simp_all
  from run_scan[OF this, of n] obtain s' where
    r: "run (replicate n (RunTask i)) ?s1 = Inr s'"
    and o: "stdout (tail s') = stdout (tail ?s1) @ map (format_line ?d) (take n ls)"
    and er: "stderr (tail s') = stderr (tail ?s1)" by blast
  have f: "format_line ?d = (\<lambda>l. ''['' @ ?d @ ''] '' @ l @ [CHR 0x0A])"
    by (rule ext) (simp add: format_line_def newline_def)
  have d1: "\<forall>r. container = ''step-'' @ r \<longrightarrow> ?d = r"
    using TrimPrefix_append by blast
  have d2: "(\<nexists>r. container = ''step-'' @ r) \<longrightarrow> ?d = container"
    using TrimPrefix_other by blast
  have "run (replicate (Suc n) (RunTask i)) s = Inr s'"
    using e r by simp
  moreover have "stdout (tail s') =
      stdout (tail s) @ map (\<lambda>l. ''['' @ ?d @ ''] '' @ l @ [CHR 0x0A]) (take n ls)"
    using o f by simp
  moreover have "stderr (tail s') = stderr (tail s)" using er by simp
  ultimately show ?thesis using d1 d2 by blast
qed

text \<open>The stream of \<open>step-build\<close>, and a container named \<open>step-step-x\<close>.\<close>

theorem reader_writes_lines_witness:
  "(\<exists>s'. run (replicate (Suc 2) (RunTask 0))
            (Tail_Start ''ns'' ''pod'' ''step-build'' (new_sys demo_client)) = Inr s' \<and>
         stdout (tail s') = [''[build] a'' @ [CHR 0x0A], ''[build] b'' @ [CHR 0x0A]] \<and>
         stderr (tail s') = []) \<and>
   TrimPrefix ''step-step-x'' ''step-'' = ''step-x'' \<and>
   TrimPrefix ''build'' ''step-'' = ''build''"
proof -
  let ?s = "Tail_Start ''ns'' ''pod'' ''step-build'' (new_sys demo_client)"
  have a: "0 < length (tasks ?s)" by (simp add: Tail_Start_def)
  have b: "tasks ?s ! 0 = ReaderOpen ''ns'' ''pod'' ''step-build''"
    by (simp add: Tail_Start_def new_sys_def)
  have c: "clientset (tail ?s) ''ns'' ''pod'' ''step-build'' = OpenStream [''a'', ''b'']"
    by (simp add: Tail_Start_def new_sys_def NewTail_def demo_client_def)
  from reader_writes_lines[OF a b c, of 2] obtain s' d where
    r: "run (replicate (Suc 2) (RunTask 0)) ?s = Inr s'"
    and d: "\<forall>r. ''step-build'' = ''step-'' @ r \<longrightarrow> d = r"
    and o: "stdout (tail s') =
             stdout (tail ?s) @ map (\<lambda>l. ''['' @ d @ ''] '' @ l @ [CHR 0x0A]) (take 2 [''a'', ''b''])"
    and e: "stderr (tail s') = stderr (tail ?s)" by blast
  from d have "d = ''build''" by simp
  with o e have "stdout (tail s') = [''[build] a'' @ [CHR 0x0A], ''[build] b'' @ [CHR 0x0A]]"
    "stderr (tail s') = []"
    by (simp_all add: Tail_Start_def new_sys_def NewTail_def)
  with r have "\<exists>s'. run (replicate (Suc 2) (RunTask 0)) ?s = Inr s' \<and>
         stdout (tail s') = [''[build] a'' @ [CHR 0x0A], ''[build] b'' @ [CHR 0x0A]] \<and>
         stderr (tail s') = []" by blast
  moreover have "TrimPrefix ''step-step-x'' ''step-'' = ''step-x''"
    "TrimPrefix ''build'' ''step-'' = ''build''"
    by (simp_all add: TrimPrefix_def HasPrefix_def)
  ultimately show ?thesis by blast
qed

subsection \<open>A failed open against the rest of the coordinator\<close>

lemma rel_sum_eqE [consumes 1, case_names Left Right]:
  assumes "rel_sum (=) R x y"
  obtains pn where "x = Inl pn" and "y = Inl pn"
    | a b where "x = Inr a" and "y = Inr b" and "R a b"
  using assms by (cases x; cases y) auto

lemma same_but_stderr_iff:
  "same_but_stderr t t' \<longleftrightarrow>
     clientset t = clientset t' \<and> tail_stopCh t = tail_stopCh t' \<and> stdout t = stdout t'"
  by (cases t; cases t') (simp add: same_but_stderr_def)

lemma task_step_same_but_stderr:
  assumes "same_but_stderr t t'"
  shows "rel_sum (=) (\<lambda>a b. same_but_stderr (fst a) (fst b) \<and> snd a = snd b)
           (task_step cd t tk) (task_step cd t' tk)"
proof (cases tk)
  case (ReaderOpen ns podName container)
  then show ?thesis
    using assms by (auto simp: same_but_stderr_iff split: open_result.splits)
next
  case (ReaderScan d ls)
  then show ?thesis
    using assms by (cases ls) (auto simp: same_but_stderr_iff)
next
  case CancelBridge
  then show ?thesis
    using assms by (auto simp: same_but_stderr_iff close_chan_def split: chan.splits)
next
  case Finished
  then show ?thesis using assms by simp
qed

lemma Tail_Stop_same_but_stderr:
  assumes "same_but_stderr t t'"
  shows "rel_sum (=) same_but_stderr (Tail_Stop t) (Tail_Stop t')"
  using assms
  by (auto simp: same_but_stderr_iff Tail_Stop_def close_chan_def split: chan.splits)

lemma sim_tasks_eq:
  assumes "sim i s s'" and "j \<noteq> i"
  shows "tasks s ! j = tasks s' ! j"
proof -
  from assms(1) have "(tasks s)[i := Finished] = (tasks s')[i := Finished]"
    by (simp add: sim_def agree_except_def)
  then have "(tasks s)[i := Finished] ! j = (tasks s')[i := Finished] ! j" by simp
  with assms(2) show ?thesis by simp
qed

lemma sim_length:
  assumes "sim i s s'"
  shows "length (tasks s) = length (tasks s')"
proof -
  from assms have "(tasks s)[i := Finished] = (tasks s')[i := Finished]"
    by (simp add: sim_def agree_except_def)
  then have "length ((tasks s)[i := Finished]) = length ((tasks s')[i := Finished])" by simp
  then show ?thesis by simp
qed

lemma exec_open_error:
  assumes "i < length (tasks s)"
    and "tasks s ! i = ReaderOpen ns podName container"
    and "clientset (tail s) ns podName container = OpenError err"
  shows "exec (RunTask i) s =
           Inr (s\<lparr>tail := (tail s)\<lparr>stderr := stderr (tail s) @ [err @ newline]\<rparr>,
                  tasks := (tasks s)[i := Finished]\<rparr>)"
  using assms by simp

lemma sim_exec:
  assumes "sim i s s'"
  shows "rel_sum (=) (sim i) (exec a s) (exec a s')"
proof (cases a)
  case (CallStart ns podName container)
  have len: "length (tasks s) = length (tasks s')" using assms by (rule sim_length)
  from assms have i: "i < length (tasks s')" by (simp add: sim_def)
  with len have i': "i < length (tasks s)" by simp
  show ?thesis
    using assms i i' CallStart
    by (simp add: sim_def agree_except_def Tail_Start_def nth_append list_update_append)
next
  case CallStop
  from assms have "same_but_stderr (tail s) (tail s')" by (simp add: sim_def agree_except_def)
  from Tail_Stop_same_but_stderr[OF this]
  show ?thesis
  proof (cases rule: rel_sum_eqE)
    case (Left pn)
    with CallStop show ?thesis by simp
  next
    case (Right ta tb)
    have cs: "clientset ta = clientset (tail s)"
      using Right(1) by (auto simp: Tail_Stop_def split: sum.splits)
    with CallStop Right assms show ?thesis
      by (simp add: sim_def agree_except_def)
  qed
next
  case CtxCancel
  with assms show ?thesis by (simp add: sim_def agree_except_def)
next
  case (RunTask j)
  have len: "length (tasks s) = length (tasks s')" using assms by (rule sim_length)
  from assms have ag: "same_but_stderr (tail s) (tail s')" and cd: "ctx_done s = ctx_done s'"
    and upd: "(tasks s)[i := Finished] = (tasks s')[i := Finished]"
    and i: "i < length (tasks s')" and fin: "tasks s' ! i = Finished"
    and alt: "tasks s ! i = Finished \<or>
       (\<exists>ns podName container err.
          tasks s ! i = ReaderOpen ns podName container \<and>
          clientset (tail s) ns podName container = OpenError err)"
    by (simp_all add: sim_def agree_except_def)
  show ?thesis
  proof (cases "j = i")
    case True
    have e': "exec (RunTask j) s' = Inr s'" unfolding True by (rule exec_Finished[OF fin])
    from alt show ?thesis
    proof
      assume "tasks s ! i = Finished"
      then have "exec (RunTask j) s = Inr s" unfolding True by (rule exec_Finished)
      with e' RunTask assms show ?thesis by simp
    next
      assume "\<exists>ns podName container err.
          tasks s ! i = ReaderOpen ns podName container \<and>
          clientset (tail s) ns podName container = OpenError err"
      then obtain ns podName container err where
        t: "tasks s ! i = ReaderOpen ns podName container"
        and c: "clientset (tail s) ns podName container = OpenError err" by blast
      have il: "i < length (tasks s)" using i len by simp
      let ?s1 = "s\<lparr>tail := (tail s)\<lparr>stderr := stderr (tail s) @ [err @ newline]\<rparr>,
                  tasks := (tasks s)[i := Finished]\<rparr>"
      have e: "exec (RunTask j) s = Inr ?s1"
        using exec_open_error[OF il t c] True by simp
      have "sim i ?s1 s'"
        using ag cd upd i fin il
        by (simp add: sim_def agree_except_def same_but_stderr_iff)
      with e e' RunTask show ?thesis by simp
    qed
  next
    case False
    show ?thesis
    proof (cases "j < length (tasks s)")
      case False
      with len RunTask assms show ?thesis by simp
    next
      case True
      with len have j': "j < length (tasks s')" by simp
      have tk: "tasks s ! j = tasks s' ! j" using assms \<open>j \<noteq> i\<close> by (rule sim_tasks_eq)
      from task_step_same_but_stderr[OF ag, of "ctx_done s" "tasks s ! j"]
      have "rel_sum (=) (\<lambda>a b. same_but_stderr (fst a) (fst b) \<and> snd a = snd b)
           (task_step (ctx_done s) (tail s) (tasks s ! j))
           (task_step (ctx_done s') (tail s') (tasks s' ! j))"
        using cd tk by simp
      then show ?thesis
      proof (cases rule: rel_sum_eqE)
        case (Left pn)
        with RunTask True j' show ?thesis by simp
      next
        case (Right ra rb)
        obtain ta tka where ra: "ra = (ta, tka)" by (cases ra)
        obtain tb tkb where rb: "rb = (tb, tkb)" by (cases rb)
        from Right(3) ra rb have st: "same_but_stderr ta tb" and tke: "tka = tkb" by simp_all
        have cs: "clientset ta = clientset (tail s)"
          using Right(1) ra
          by (cases "tasks s ! j")
             (auto split: open_result.splits list.splits if_splits sum.splits
                   elim!: task_step.elims)
        have u: "(tasks s)[j := tka, i := Finished] = (tasks s')[j := tkb, i := Finished]"
          using upd tke \<open>j \<noteq> i\<close> by (metis list_update_swap)
        have "sim i (s\<lparr>tail := ta, tasks := (tasks s)[j := tka]\<rparr>)
                    (s'\<lparr>tail := tb, tasks := (tasks s')[j := tkb]\<rparr>)"
          using st cd u i fin alt \<open>j \<noteq> i\<close> cs
          by (simp add: sim_def agree_except_def)
        with Right(1,2) ra rb RunTask True j' show ?thesis by simp
      qed
    qed
  qed
qed

lemma sim_run:
  "sim i s s' \<Longrightarrow> rel_sum (=) (sim i) (run acts s) (run acts s')"
proof (induction acts arbitrary: s s')
  case Nil
  then show ?case by simp
next
  case (Cons a acts)
  from sim_exec[OF Cons.prems, of a] show ?case
  proof (cases rule: rel_sum_eqE)
    case (Left pn)
    then show ?thesis by simp
  next
    case (Right sa sb)
    with Cons.IH[of sa sb] show ?thesis by simp
  qed
qed

text \<open>
  C7. Let task \<open>i\<close> be a reader whose stream fails to open. Its step writes the error
  and a newline to the error sink and ends that task; it raises no panic and changes
  neither the output sink, nor the stop channel, nor the context, nor any other task.
  And for every sequence of actions, the run from this state and the run from the state
  in which task \<open>i\<close> has simply finished end alike: both panic in the same way, or both
  go through with the same output sink, stop channel, context and other tasks. Neither
  \<open>Start\<close> nor the reader has an error result.
\<close>

theorem open_failure_is_isolated:
  assumes "i < length (tasks s)"
    and "tasks s ! i = ReaderOpen ns podName container"
    and "clientset (tail s) ns podName container = OpenError err"
  shows "exec (RunTask i) s =
           Inr (s\<lparr>tail := (tail s)\<lparr>stderr := stderr (tail s) @ [err @ [CHR 0x0A]]\<rparr>,
                  tasks := (tasks s)[i := Finished]\<rparr>) \<and>
         rel_sum (=)
           (\<lambda>a b. stdout (tail a) = stdout (tail b) \<and>
                  tail_stopCh (tail a) = tail_stopCh (tail b) \<and>
                  ctx_done a = ctx_done b \<and>
                  (tasks a)[i := Finished] = (tasks b)[i := Finished])
           (run acts s) (run acts (s\<lparr>tasks := (tasks s)[i := Finished]\<rparr>))"
proof
  show "exec (RunTask i) s =
           Inr (s\<lparr>tail := (tail s)\<lparr>stderr := stderr (tail s) @ [err @ [CHR 0x0A]]\<rparr>,
                  tasks := (tasks s)[i := Finished]\<rparr>)"
    using exec_open_error[OF assms] by (simp add: newline_def)
next
  let ?s0 = "s\<lparr>tasks := (tasks s)[i := Finished]\<rparr>"
  have "sim i s ?s0"
    using assms by (simp add: sim_def agree_except_def same_but_stderr_def)
  from sim_run[OF this, of acts]
  show "rel_sum (=)
           (\<lambda>a b. stdout (tail a) = stdout (tail b) \<and>
                  tail_stopCh (tail a) = tail_stopCh (tail b) \<and>
                  ctx_done a = ctx_done b \<and>
                  (tasks a)[i := Finished] = (tasks b)[i := Finished])
           (run acts s) (run acts ?s0)"
  proof (cases rule: rel_sum_eqE)
    case (Left pn)
    then show ?thesis by simp
  next
    case (Right a b)
    then show ?thesis
      by (simp add: sim_def agree_except_def same_but_stderr_iff)
  qed
qed

lemma demo_sys_tasks:
  "tasks demo_sys =
     [ReaderOpen ''ns'' ''pod'' ''step-missing'', CancelBridge,
      ReaderOpen ''ns'' ''pod'' ''step-build'', CancelBridge]"
  "tail demo_sys = NewTail demo_client"
  "ctx_done demo_sys = False"
  by (simp_all add: demo_sys_def Tail_Start_def new_sys_def)

lemmas tail_eval =
  demo_sys_tasks NewTail_def demo_client_def TrimPrefix_def HasPrefix_def
  format_line_def newline_def Tail_Stop_def close_chan_def

text \<open>
  Two attachments, the first failing to open; the readers take turns. The working
  reader's two lines reach the output sink, the error reaches the error sink.
\<close>

theorem open_failure_is_isolated_witness:
  "map_sum id (\<lambda>a. (stdout (tail a), stderr (tail a), tail_stopCh (tail a), tasks a))
     (run [RunTask 2, RunTask 0, RunTask 2, RunTask 2, RunTask 2] demo_sys) =
   Inr ([''[build] a'' @ [CHR 0x0A], ''[build] b'' @ [CHR 0x0A]],
        [''container not found'' @ [CHR 0x0A]],
        ChanOpen,
        [Finished, CancelBridge, Finished, CancelBridge]) \<and>
   map_sum id (\<lambda>a. (stdout (tail a), stderr (tail a), tail_stopCh (tail a), tasks a))
     (run [RunTask 2, RunTask 0, RunTask 2, RunTask 2, RunTask 2]
        (demo_sys\<lparr>tasks := (tasks demo_sys)[0 := Finished]\<rparr>)) =
   Inr ([''[build] a'' @ [CHR 0x0A], ''[build] b'' @ [CHR 0x0A]],
        [],
        ChanOpen,
        [Finished, CancelBridge, Finished, CancelBridge])"
proof -
  have a: "0 < length (tasks demo_sys)" by (simp add: demo_sys_tasks)
  have b: "tasks demo_sys ! 0 = ReaderOpen ''ns'' ''pod'' ''step-missing''"
    by (simp add: demo_sys_tasks)
  have c: "clientset (tail demo_sys) ''ns'' ''pod'' ''step-missing'' =
             OpenError ''container not found''"
    by (simp add: tail_eval)
  have two: "(2 :: nat) = Suc (Suc 0)" by simp
  show ?thesis
    using open_failure_is_isolated[OF a b c,
            of "[RunTask 2, RunTask 0, RunTask 2, RunTask 2, RunTask 2]"]
    by (simp add: tail_eval two)
qed

subsection \<open>Stopping\<close>

lemma close_chan_cases:
  "close_chan ChanOpen = Inr ChanClosed"
  "close_chan ChanClosed = Inl CloseOfClosedChannel"
  "close_chan ChanNil = Inl CloseOfNilChannel"
  by (simp_all add: close_chan_def)

text \<open>
  C1 as stated fails: there is no latch. On a new watcher the first \<open>Stop\<close> closes the
  stop channel and the second panics; on a new coordinator the second \<open>Stop\<close> panics,
  and so does the first \<open>Stop\<close> made after the context was cancelled and the bridge of
  an attachment has closed the stop channel.
\<close>

theorem Stop_twice_counterexample:
  "NewPodWatcher None = (Inr new_watcher :: string + (string, nat, string) PodWatcher) \<and>
   PodWatcher_Stop new_watcher = Inr (new_watcher\<lparr>stopCh := ChanClosed\<rparr>) \<and>
   PodWatcher_Stop (new_watcher\<lparr>stopCh := ChanClosed\<rparr>) = Inl CloseOfClosedChannel \<and>
   run [CallStop, CallStop] (new_sys demo_client) = Inl CloseOfClosedChannel \<and>
   run [CallStart ''ns'' ''pod'' ''step-build'', CtxCancel, RunTask 1, CallStop]
       (new_sys demo_client) = Inl CloseOfClosedChannel"
  by (simp add: NewPodWatcher_def new_watcher_def PodWatcher_Stop_def close_chan_cases
      new_sys_def NewTail_def Tail_Stop_def Tail_Start_def)

text \<open>
  The bridges collide in the same way without any \<open>Stop\<close>: with two attachments, once
  the context is cancelled the second bridge closes the channel the first has closed.
\<close>

lemma cancel_with_two_attachments_panics:
  "run [CtxCancel, RunTask 1, RunTask 3] demo_sys = Inl CloseOfClosedChannel"
proof -
  have three: "(3 :: nat) = Suc (Suc (Suc 0))" by simp
  show ?thesis by (simp add: tail_eval three)
qed

text \<open>
  C1, amended. A call of \<open>Stop\<close>, on a watcher or on a coordinator, whose stop channel
  is open closes that channel, changes nothing else and returns without fault. A call
  made when the stop channel is already closed, by an earlier \<open>Stop\<close> or by the bridge
  of \<open>Tail.Start\<close> after cancellation, is not a no-op: it panics.
\<close>

theorem Stop_closes_once:
  "(stopCh p = ChanOpen \<longrightarrow> PodWatcher_Stop p = Inr (p\<lparr>stopCh := ChanClosed\<rparr>)) \<and>
   (stopCh p = ChanClosed \<longrightarrow> PodWatcher_Stop p = Inl CloseOfClosedChannel) \<and>
   (tail_stopCh t = ChanOpen \<longrightarrow> Tail_Stop t = Inr (t\<lparr>tail_stopCh := ChanClosed\<rparr>)) \<and>
   (tail_stopCh t = ChanClosed \<longrightarrow> Tail_Stop t = Inl CloseOfClosedChannel)"
  by (simp add: PodWatcher_Stop_def Tail_Stop_def close_chan_cases)

text \<open>The watcher of the dispatcher examples and a new coordinator, before and after a stop.\<close>

theorem Stop_closes_once_witness:
  "stopCh demo_watcher = ChanOpen \<and>
   PodWatcher_Stop demo_watcher = Inr (demo_watcher\<lparr>stopCh := ChanClosed\<rparr>) \<and>
   stopCh (demo_watcher\<lparr>stopCh := ChanClosed\<rparr>) = ChanClosed \<and>
   PodWatcher_Stop (demo_watcher\<lparr>stopCh := ChanClosed\<rparr>) = Inl CloseOfClosedChannel \<and>
   tail_stopCh (NewTail demo_client) = ChanOpen \<and>
   Tail_Stop (NewTail demo_client) = Inr ((NewTail demo_client)\<lparr>tail_stopCh := ChanClosed\<rparr>) \<and>
   tail_stopCh ((NewTail demo_client)\<lparr>tail_stopCh := ChanClosed\<rparr>) = ChanClosed \<and>
   Tail_Stop ((NewTail demo_client)\<lparr>tail_stopCh := ChanClosed\<rparr>) = Inl CloseOfClosedChannel"
proof -
  have a: "stopCh demo_watcher = ChanOpen" by (simp add: demo_watcher_def)
  have b: "stopCh (demo_watcher\<lparr>stopCh := ChanClosed\<rparr>) = ChanClosed" by simp
  have c: "tail_stopCh (NewTail demo_client) = ChanOpen" by (simp add: NewTail_def)
  have d: "tail_stopCh ((NewTail demo_client)\<lparr>tail_stopCh := ChanClosed\<rparr>) = ChanClosed" by simp
  show ?thesis
    using Stop_closes_once[of demo_watcher "NewTail demo_client"]
          Stop_closes_once[of "demo_watcher\<lparr>stopCh := ChanClosed\<rparr>"
                              "(NewTail demo_client)\<lparr>tail_stopCh := ChanClosed\<rparr>"]
          a b c d
    by simp
qed


end
